theory Spec2Isabelle
  imports Main "HOL-Library.AList"
begin

section \<open>JavaScript values\<close>

text \<open>
  The model engine of \<^verbatim>\<open>src/model.js\<close> works on untyped JavaScript values. The
  fragment covered here: \<^verbatim>\<open>undefined\<close>, \<^verbatim>\<open>null\<close>, booleans, integral
  numbers, strings, \<^verbatim>\<open>Date\<close> objects (their time value in milliseconds), plain
  objects (own enumerable properties in insertion order), arrays, and the three shapes an
  instance of \<^verbatim>\<open>Model\<close> can have after its constructor ran: a single item, a
  collection, or an instance built from a value that is neither an object nor an array
  (the constructor then sets nothing). A property list stands for an object, so its names
  are taken to be distinct; a lookup reads the first entry of a name.

  Outside the fragment: non-integral numbers and \<^verbatim>\<open>NaN\<close>, function values stored
  in fields, properties inherited from prototypes, property names that collide with the
  bookkeeping keys \<^verbatim>\<open>$modelize\<close> and \<^verbatim>\<open>collection\<close>, and object identity
  (values are trees, so an object reachable through two fields is two copies).
\<close>

record states =
  fetchInProgress :: bool
  fetchSuccessOnce :: bool
  fetchSuccess :: bool
  fetchFailure :: bool
  saveInProgress :: "bool option"
  saveSuccess :: "bool option"
  saveFailure :: "bool option"

text \<open>
  \<^verbatim>\<open>$modelize.fetch.options\<close>: the request method and the \<^verbatim>\<open>extend\<close> flag are
  the parts read again later; path and search parameters only feed the URL.
\<close>

record fetch_options =
  fo_method :: string
  fo_extend :: bool

datatype jsval =
    JUndefined
  | JNull
  | JBool bool
  | JNum int
  | JStr string
  | JDate int
  | JObj "(string \<times> jsval) list"
  | JArr "jsval list"
  | JEntity "(string \<times> jsval) list" bool "(string \<times> bool) list" states "fetch_options option"
  | JCollection "jsval list" int states "fetch_options option"
  | JBare

text \<open>
  \<open>JEntity fields isNew validator states fetch\<close> is a single item: its own data
  properties, then the \<^verbatim>\<open>$modelize\<close> block. The validator table is kept as the
  \<^verbatim>\<open>checked\<close> flag per field name; the \<^verbatim>\<open>isValid\<close> closure of an entry
  captures only the field configuration of the schema, so it is recomputed from the schema
  (\<open>validator_isValid\<close> below). \<open>JCollection items count states fetch\<close> is a
  collection. The save flags of \<open>states\<close> are optional because a collection is
  created without them.
\<close>

datatype error = TypeError | JsError string | Unmodelled

text \<open>
  \<open>TypeError\<close> is the engine's own runtime failure (a property read on
  \<^verbatim>\<open>undefined\<close>, a call of something that is no function), \<open>JsError\<close> an
  explicit \<^verbatim>\<open>throw new Error(...)\<close> of the source, and \<open>Unmodelled\<close> marks an
  input on which the source continues with values outside the fragment above.
\<close>

fun truthy :: "jsval \<Rightarrow> bool" where
  "truthy JUndefined = False"
| "truthy JNull = False"
| "truthy (JBool b) = b"
| "truthy (JNum n) = (n \<noteq> 0)"
| "truthy (JStr s) = (s \<noteq> [])"
| "truthy _ = True"

definition js_and :: "jsval \<Rightarrow> jsval \<Rightarrow> jsval" where
  "js_and a b = (if truthy a then b else a)"

definition js_or :: "jsval \<Rightarrow> jsval \<Rightarrow> jsval" where
  "js_or a b = (if truthy a then a else b)"

definition js_not :: "jsval \<Rightarrow> jsval" where
  "js_not a = JBool (\<not> truthy a)"

text \<open>
  Strict equality \<^verbatim>\<open>===\<close>. Primitives compare by value. Objects compare by
  identity, which trees do not carry: two object operands are taken to be different
  objects.
\<close>

fun is_primitive :: "jsval \<Rightarrow> bool" where
  "is_primitive JUndefined = True"
| "is_primitive JNull = True"
| "is_primitive (JBool b) = True"
| "is_primitive (JNum n) = True"
| "is_primitive (JStr s) = True"
| "is_primitive _ = False"

definition strict_eq :: "jsval \<Rightarrow> jsval \<Rightarrow> bool" where
  "strict_eq a b = (is_primitive a \<and> a = b)"

definition get_prop :: "(string \<times> jsval) list \<Rightarrow> string \<Rightarrow> jsval" where
  "get_prop ps k = (case map_of ps k of Some v \<Rightarrow> v | None \<Rightarrow> JUndefined)"

definition has_key :: "(string \<times> 'a) list \<Rightarrow> string \<Rightarrow> bool" where
  "has_key ps k = (map_of ps k \<noteq> None)"

text \<open>Decimal notation of a number, as \<^verbatim>\<open>String(n)\<close> and template strings give it.\<close>

fun digit_char :: "nat \<Rightarrow> char" where
  "digit_char n = char_of (48 + n)"

fun nat_to_string :: "nat \<Rightarrow> string" where
  "nat_to_string n = (if n < 10 then [digit_char n] else nat_to_string (n div 10) @ [digit_char (n mod 10)])"

declare nat_to_string.simps [simp del]

definition number_to_string :: "int \<Rightarrow> string" where
  "number_to_string i = (if i < 0 then CHR ''-'' # nat_to_string (nat (- i)) else nat_to_string (nat i))"

text \<open>The index an array-index property name stands for.\<close>

definition index_of_key :: "nat \<Rightarrow> string \<Rightarrow> nat option" where
  "index_of_key n k = List.find (\<lambda>i. nat_to_string i = k) [0..<n]"

text \<open>
  \<^verbatim>\<open>has(object, key)\<close> is \<^verbatim>\<open>Object.prototype.hasOwnProperty.call(object, key)\<close>,
  which throws on \<^verbatim>\<open>undefined\<close> and \<^verbatim>\<open>null\<close>. Arrays and strings own
  \<^verbatim>\<open>length\<close> and their indices. An instance owns \<^verbatim>\<open>$modelize\<close> besides its
  data properties, a collection owns \<^verbatim>\<open>$modelize\<close> and the list under
  \<^verbatim>\<open>collection\<close>.
\<close>

fun has :: "jsval \<Rightarrow> string \<Rightarrow> error + bool" where
  "has JUndefined k = Inl TypeError"
| "has JNull k = Inl TypeError"
| "has (JObj ps) k = Inr (has_key ps k)"
| "has (JArr xs) k = Inr (k = ''length'' \<or> index_of_key (length xs) k \<noteq> None)"
| "has (JStr s) k = Inr (k = ''length'' \<or> index_of_key (length s) k \<noteq> None)"
| "has (JEntity fs n v s f) k = Inr (k = ''$modelize'' \<or> has_key fs k)"
| "has (JCollection xs c s f) k = Inr (k = ''$modelize'' \<or> k = ''collection'')"
| "has _ k = Inr False"

text \<open>
  Property read \<^verbatim>\<open>value[key]\<close>. The block \<^verbatim>\<open>$modelize\<close> is no value of the
  fragment, so \<open>get\<close> is for every other key.
\<close>

fun get :: "jsval \<Rightarrow> string \<Rightarrow> error + jsval" where
  "get JUndefined k = Inl TypeError"
| "get JNull k = Inl TypeError"
| "get (JObj ps) k = Inr (get_prop ps k)"
| "get (JArr xs) k =
     Inr (if k = ''length'' then JNum (int (length xs))
          else (case index_of_key (length xs) k of Some i \<Rightarrow> xs ! i | None \<Rightarrow> JUndefined))"
| "get (JStr s) k =
     Inr (if k = ''length'' then JNum (int (length s))
          else (case index_of_key (length s) k of Some i \<Rightarrow> JStr [s ! i] | None \<Rightarrow> JUndefined))"
| "get (JEntity fs n v s f) k = Inr (get_prop fs k)"
| "get (JCollection xs c s f) k = Inr (if k = ''collection'' then JArr xs else JUndefined)"
| "get _ k = Inr JUndefined"

section \<open>Field types, schema, model class\<close>

text \<open>
  Options of the constructor (\<^verbatim>\<open>isNew\<close>, \<^verbatim>\<open>count\<close>; \<open>None\<close> is an absent
  key) and of serialization (\<^verbatim>\<open>removeInvalid\<close>, read by truthiness).
\<close>

record build_options =
  bo_isNew :: "bool option"
  bo_count :: "jsval option"

record save_options =
  removeInvalid :: bool

text \<open>
  A field type is the object of five functions of the field-type table; an association
  type also carries its kind and the associated model class. A compiled field
  configuration is what \<^verbatim>\<open>Model.init\<close> leaves in the schema: every option a function.
  The class carries the static properties the methods read through
  \<^verbatim>\<open>this.constructor\<close>.
\<close>

datatype fieldtype = FieldType
    (t_defaultValue: "jsval \<Rightarrow> jsval")
    (t_isBlank: "jsval \<Rightarrow> jsval")
    (t_isValid: "jsval \<Rightarrow> jsval")
    (t_beforeSave: "jsval \<Rightarrow> save_options \<Rightarrow> error + jsval")
    (t_beforeBuild: "jsval \<Rightarrow> build_options \<Rightarrow> jsval")
    (t_association: association)
and association = NoAssociation | BelongsTo model | HasOne model | HasMany model
and fieldconf = FieldConf
    (fc_type: fieldtype)
    (fc_primaryKey: bool)
    (fc_defaultValue: "jsval \<Rightarrow> jsval")
    (fc_allowBlank: "jsval \<Rightarrow> jsval \<Rightarrow> jsval")
    (fc_isValid: "jsval \<Rightarrow> jsval \<Rightarrow> jsval")
    (fc_autoChecked: bool)
and model = Model
    (schema: "(string \<times> fieldconf) list")
    (primaryKeyFieldname: "string option")
    (buildRawItemOnNew: bool)
    (collectionDataKey: string)
    (collectionCountKey: string)
    (endpoint: string)

text \<open>
  A property name built from \<^verbatim>\<open>this.primaryKeyFieldname\<close>: the initial
  \<^verbatim>\<open>null\<close> reads the property called \<^verbatim>\<open>null\<close>.
\<close>

definition pk_key :: "model \<Rightarrow> string" where
  "pk_key cls = (case primaryKeyFieldname cls of None \<Rightarrow> ''null'' | Some k \<Rightarrow> k)"

subsection \<open>\<^verbatim>\<open>_buildRawItem\<close>\<close>

definition resolve_primaryKey :: "model \<Rightarrow> (string \<times> jsval) list \<Rightarrow> error + jsval" where
  "resolve_primaryKey cls item =
     (if truthy (get_prop item ''primaryKey'') then Inr (get_prop item ''primaryKey'')
      else if truthy (get_prop item (pk_key cls)) then Inr (get_prop item (pk_key cls))
      else (case map_of (schema cls) (pk_key cls) of
              None \<Rightarrow> Inl TypeError
            | Some fieldconf \<Rightarrow> Inr (fc_defaultValue fieldconf JUndefined)))"

definition buildRawItem :: "model \<Rightarrow> (string \<times> jsval) list \<Rightarrow> error + (string \<times> jsval) list" where
  "buildRawItem cls item =
     (case resolve_primaryKey cls item of
        Inl e \<Rightarrow> Inl e
      | Inr primaryKey \<Rightarrow>
          Inr (map (\<lambda>(fieldname, fieldconf).
                 (fieldname,
                  if Some fieldname = primaryKeyFieldname cls then primaryKey
                  else if has_key item fieldname then get_prop item fieldname
                  else fc_defaultValue fieldconf primaryKey))
               (schema cls)))"

subsection \<open>\<^verbatim>\<open>_buildValidator\<close>\<close>

text \<open>The closure stored as \<^verbatim>\<open>isValid\<close> in the validator entry of a field.\<close>

definition validator_isValid :: "fieldconf \<Rightarrow> jsval \<Rightarrow> jsval \<Rightarrow> jsval" where
  "validator_isValid fieldconf val data =
     (let isBlank = t_isBlank (fc_type fieldconf) val
      in js_and
           (js_or (js_and isBlank (fc_allowBlank fieldconf val data))
                  (js_and (js_not isBlank) (t_isValid (fc_type fieldconf) val)))
           (fc_isValid fieldconf val data))"

definition buildValidator :: "model \<Rightarrow> (string \<times> bool) list" where
  "buildValidator cls =
     map (\<lambda>(fieldname, fieldconf). (fieldname, fc_autoChecked fieldconf)) (schema cls)"

text \<open>
  \<^verbatim>\<open>this.$modelize.validator[fieldname].isValid(value, this)\<close>: a field without an
  entry makes the property read fail.
\<close>

definition call_isValid :: "model \<Rightarrow> string \<Rightarrow> jsval \<Rightarrow> jsval \<Rightarrow> error + jsval" where
  "call_isValid cls fieldname val data =
     (case map_of (schema cls) fieldname of
        None \<Rightarrow> Inl TypeError
      | Some fieldconf \<Rightarrow> Inr (validator_isValid fieldconf val data))"

section \<open>Building instances\<close>

definition item_states :: states where
  "item_states = \<lparr>fetchInProgress = False, fetchSuccessOnce = False, fetchSuccess = False,
     fetchFailure = False, saveInProgress = Some False, saveSuccess = Some False,
     saveFailure = Some False\<rparr>"

definition collection_states :: states where
  "collection_states = \<lparr>fetchInProgress = False, fetchSuccessOnce = False,
     fetchSuccess = False, fetchFailure = False, saveInProgress = None, saveSuccess = None,
     saveFailure = None\<rparr>"

text \<open>\<^verbatim>\<open>options = { isNew: true, ...options }\<close>\<close>

definition with_defaults :: "build_options \<Rightarrow> build_options" where
  "with_defaults options =
     options\<lparr>bo_isNew := Some (case bo_isNew options of None \<Rightarrow> True | Some b \<Rightarrow> b)\<rparr>"

definition opt_isNew :: "build_options \<Rightarrow> bool" where
  "opt_isNew options = (case bo_isNew options of None \<Rightarrow> True | Some b \<Rightarrow> b)"

text \<open>
  The loop \<^verbatim>\<open>for (const fieldname in data) this[fieldname] = ...\<close> of the
  constructor: a field of the schema goes through \<^verbatim>\<open>beforeBuild\<close> of its type,
  any other field is copied.
\<close>

definition build_value :: "model \<Rightarrow> build_options \<Rightarrow> string \<Rightarrow> jsval \<Rightarrow> jsval" where
  "build_value cls options fieldname val =
     (case map_of (schema cls) fieldname of
        Some fieldconf \<Rightarrow> t_beforeBuild (fc_type fieldconf) val options
      | None \<Rightarrow> val)"

fun build_fields ::
  "model \<Rightarrow> build_options \<Rightarrow> (string \<times> jsval) list \<Rightarrow> (string \<times> jsval) list \<Rightarrow> (string \<times> jsval) list"
where
  "build_fields cls options [] this = this"
| "build_fields cls options ((fieldname, val) # data) this =
     build_fields cls options data
       (AList.update fieldname (build_value cls options fieldname val) this)"

text \<open>The branch \<^verbatim>\<open>isObject(data)\<close> of the constructor, \<open>options\<close> already defaulted.\<close>

definition build_item :: "model \<Rightarrow> (string \<times> jsval) list \<Rightarrow> build_options \<Rightarrow> error + jsval" where
  "build_item cls data options =
     (case (if opt_isNew options \<and> buildRawItemOnNew cls then buildRawItem cls data
            else Inr data) of
        Inl e \<Rightarrow> Inl e
      | Inr data' \<Rightarrow>
          Inr (JEntity (build_fields cls options data' []) (opt_isNew options)
                 (buildValidator cls) item_states None))"

text \<open>
  \<^verbatim>\<open>item instanceof this.constructor\<close>: one model class is in play in a collection, so
  every instance shape counts as one of its instances.
\<close>

fun is_instance :: "jsval \<Rightarrow> bool" where
  "is_instance (JEntity fs n v s f) = True"
| "is_instance (JCollection xs c s f) = True"
| "is_instance JBare = True"
| "is_instance _ = False"

text \<open>
  The constructor. \<open>construct_items\<close> is the loop
  \<^verbatim>\<open>for (const item of data) this.add(item, options)\<close> with the body of \<^verbatim>\<open>add\<close>
  in place (an \<^verbatim>\<open>undefined\<close> item takes the default \<^verbatim>\<open>{}\<close> of \<^verbatim>\<open>add\<close>); it
  threads the list and the count. A count option that is no number leaves the fragment.
  Data that is already an instance, or a \<^verbatim>\<open>Date\<close>, depends on the
  \<^verbatim>\<open>isObject\<close> helper that is not part of the sources.
\<close>

fun construct :: "model \<Rightarrow> jsval \<Rightarrow> build_options \<Rightarrow> error + jsval"
and construct_items ::
  "model \<Rightarrow> jsval list \<Rightarrow> build_options \<Rightarrow> jsval list \<times> int \<Rightarrow> error + jsval list \<times> int"
where
  "construct cls (JObj data) options = build_item cls data (with_defaults options)"
| "construct cls (JArr data) options =
     (case construct_items cls data (with_defaults options) ([], 0) of
        Inl e \<Rightarrow> Inl e
      | Inr (items, count) \<Rightarrow>
          (case bo_count options of
             None \<Rightarrow> Inr (JCollection items count collection_states None)
           | Some (JNum c) \<Rightarrow> Inr (JCollection items c collection_states None)
           | Some _ \<Rightarrow> Inl Unmodelled))"
| "construct cls (JEntity fs n v s f) options = Inl Unmodelled"
| "construct cls (JCollection xs c s f) options = Inl Unmodelled"
| "construct cls JBare options = Inl Unmodelled"
| "construct cls (JDate d) options = Inl Unmodelled"
| "construct cls JUndefined options = Inr JBare"
| "construct cls JNull options = Inr JBare"
| "construct cls (JBool b) options = Inr JBare"
| "construct cls (JNum n) options = Inr JBare"
| "construct cls (JStr s) options = Inr JBare"
| "construct_items cls [] options acc = Inr acc"
| "construct_items cls (item # data) options (items, count) =
     (case (if is_instance item then Inr item
            else if item = JUndefined then build_item cls [] (with_defaults options)
            else construct cls item options) of
        Inl e \<Rightarrow> Inl e
      | Inr instance \<Rightarrow> construct_items cls data options (items @ [instance], count + 1))"

section \<open>Collection methods\<close>

text \<open>
  \<^verbatim>\<open>this.items()\<close> with its guard \<^verbatim>\<open>_allowCollection\<close>. The getter
  \<^verbatim>\<open>isCollection\<close> reads \<^verbatim>\<open>this.$modelize\<close>, which an instance built from a
  primitive does not have.
\<close>

fun items :: "jsval \<Rightarrow> error + jsval list" where
  "items (JCollection xs c s f) = Inr xs"
| "items (JEntity fs n v s f) =
     Inl (JsError ''[Modelize] Cannot use a collection method on a single item instance'')"
| "items _ = Inl TypeError"

text \<open>
  The reference of \<^verbatim>\<open>find\<close>, \<^verbatim>\<open>exists\<close>, \<^verbatim>\<open>remove\<close>: a function, or
  any other value. \<^verbatim>\<open>_getCollectionCallback\<close> keeps a function, compares the primary
  key with a string, and otherwise with the same property of the reference.
\<close>

datatype ref = RefFn "jsval \<Rightarrow> jsval" | RefVal jsval

fun getCollectionCallback :: "model \<Rightarrow> ref \<Rightarrow> jsval \<Rightarrow> error + jsval" where
  "getCollectionCallback cls (RefFn callback) item = Inr (callback item)"
| "getCollectionCallback cls (RefVal (JStr s)) item =
     (case get item (pk_key cls) of
        Inl e \<Rightarrow> Inl e
      | Inr v \<Rightarrow> Inr (JBool (strict_eq v (JStr s))))"
| "getCollectionCallback cls (RefVal r) item =
     (case get item (pk_key cls) of
        Inl e \<Rightarrow> Inl e
      | Inr v \<Rightarrow>
          (case get r (pk_key cls) of
             Inl e \<Rightarrow> Inl e
           | Inr w \<Rightarrow> Inr (JBool (strict_eq v w))))"

text \<open>
  \<^verbatim>\<open>Array.prototype.some\<close>, \<^verbatim>\<open>findIndex\<close> and \<^verbatim>\<open>find\<close>: the callback runs
  from the first element on and stops at the first truthy answer. \<open>None\<close> is the index
  \<^verbatim>\<open>-1\<close>.
\<close>

fun some :: "(jsval \<Rightarrow> error + jsval) \<Rightarrow> jsval list \<Rightarrow> error + bool" where
  "some callback [] = Inr False"
| "some callback (x # xs) =
     (case callback x of
        Inl e \<Rightarrow> Inl e
      | Inr r \<Rightarrow> if truthy r then Inr True else some callback xs)"

fun findIndex :: "(jsval \<Rightarrow> error + jsval) \<Rightarrow> jsval list \<Rightarrow> error + nat option" where
  "findIndex callback [] = Inr None"
| "findIndex callback (x # xs) =
     (case callback x of
        Inl e \<Rightarrow> Inl e
      | Inr r \<Rightarrow>
          if truthy r then Inr (Some 0)
          else (case findIndex callback xs of
                  Inl e \<Rightarrow> Inl e
                | Inr None \<Rightarrow> Inr None
                | Inr (Some i) \<Rightarrow> Inr (Some (Suc i))))"

definition length_of :: "jsval \<Rightarrow> error + nat" where
  "length_of this = (case items this of Inl e \<Rightarrow> Inl e | Inr xs \<Rightarrow> Inr (length xs))"

fun total_count :: "jsval \<Rightarrow> int" where
  "total_count (JCollection xs c s f) = c"
| "total_count _ = 0"

definition hasMore :: "jsval \<Rightarrow> error + bool" where
  "hasMore this =
     (case length_of this of Inl e \<Rightarrow> Inl e | Inr n \<Rightarrow> Inr (int n < total_count this))"

definition exists :: "model \<Rightarrow> ref \<Rightarrow> jsval \<Rightarrow> error + bool" where
  "exists cls ref this =
     (case items this of
        Inl e \<Rightarrow> Inl e
      | Inr xs \<Rightarrow> some (getCollectionCallback cls ref) xs)"

text \<open>
  \<^verbatim>\<open>remove\<close> returns \<^verbatim>\<open>null\<close>, or what \<^verbatim>\<open>splice(indexToRemove, 1)\<close> returns:
  the array of the removed elements. The second component is the collection afterwards.
\<close>

fun remove :: "model \<Rightarrow> ref \<Rightarrow> jsval \<Rightarrow> error + jsval \<times> jsval" where
  "remove cls ref (JCollection xs c s f) =
     (case findIndex (getCollectionCallback cls ref) xs of
        Inl e \<Rightarrow> Inl e
      | Inr None \<Rightarrow> Inr (JNull, JCollection xs c s f)
      | Inr (Some indexToRemove) \<Rightarrow>
          Inr (JArr (take 1 (drop indexToRemove xs)),
               JCollection (take indexToRemove xs @ drop (Suc indexToRemove) xs) (c - 1) s f))"
| "remove cls ref this = (case items this of Inl e \<Rightarrow> Inl e | Inr xs \<Rightarrow> Inl TypeError)"

text \<open>
  \<^verbatim>\<open>add(item = {}, options = {})\<close>: the instance is made first, then pushed. The
  result is the instance and the collection afterwards.
\<close>

definition make_instance :: "model \<Rightarrow> jsval \<Rightarrow> build_options \<Rightarrow> error + jsval" where
  "make_instance cls item options =
     (if is_instance item then Inr item
      else construct cls (if item = JUndefined then JObj [] else item) options)"

fun push_item :: "jsval \<Rightarrow> jsval \<Rightarrow> error + jsval" where
  "push_item instance (JCollection xs c s f) = Inr (JCollection (xs @ [instance]) (c + 1) s f)"
| "push_item instance this = (case items this of Inl e \<Rightarrow> Inl e | Inr xs \<Rightarrow> Inl TypeError)"

definition add :: "model \<Rightarrow> jsval \<Rightarrow> build_options \<Rightarrow> jsval \<Rightarrow> error + jsval \<times> jsval" where
  "add cls item options this =
     (case make_instance cls item options of
        Inl e \<Rightarrow> Inl e
      | Inr instance \<Rightarrow>
          (case push_item instance this of
             Inl e \<Rightarrow> Inl e
           | Inr this' \<Rightarrow> Inr (instance, this')))"

definition no_options :: build_options where
  "no_options = \<lparr>bo_isNew = None, bo_count = None\<rparr>"

text \<open>
  \<^verbatim>\<open>toggle(item, callback = null)\<close> with \<^verbatim>\<open>ref = callback || item\<close>; a function is
  truthy.
\<close>

fun toggle_ref :: "ref \<Rightarrow> jsval \<Rightarrow> ref" where
  "toggle_ref (RefFn callback) item = RefFn callback"
| "toggle_ref (RefVal v) item = (if truthy v then RefVal v else RefVal item)"

definition toggle :: "model \<Rightarrow> jsval \<Rightarrow> ref \<Rightarrow> jsval \<Rightarrow> error + jsval \<times> jsval" where
  "toggle cls item callback this =
     (case exists cls (toggle_ref callback item) this of
        Inl e \<Rightarrow> Inl e
      | Inr True \<Rightarrow> remove cls (toggle_ref callback item) this
      | Inr False \<Rightarrow> add cls item no_options this)"

text \<open>\<^verbatim>\<open>clear\<close> empties the list with \<^verbatim>\<open>splice(0, this.length)\<close>.\<close>

fun clear :: "jsval \<Rightarrow> error + jsval" where
  "clear (JCollection xs c s f) = Inr (JCollection [] c s f)"
| "clear this = (case items this of Inl e \<Rightarrow> Inl e | Inr xs \<Rightarrow> Inl TypeError)"

section \<open>Merging fetched data\<close>

fun add_all :: "model \<Rightarrow> jsval list \<Rightarrow> jsval \<Rightarrow> error + jsval" where
  "add_all cls [] this = Inr this"
| "add_all cls (newItem # newItems) this =
     (case add cls newItem no_options this of
        Inl e \<Rightarrow> Inl e
      | Inr (instance, this') \<Rightarrow> add_all cls newItems this')"

definition extend_flag :: "fetch_options option \<Rightarrow> bool" where
  "extend_flag f = (case f of None \<Rightarrow> False | Some options \<Rightarrow> fo_extend options)"

text \<open>
  \<^verbatim>\<open>_mutateData(newData)\<close>. A fresh collection extends or replaces the list, and its
  count is taken over in both modes. A fresh item is copied key by key: of
  \<^verbatim>\<open>$modelize\<close> only \<^verbatim>\<open>isNew\<close>, a field that is an instance on both sides by a
  recursive merge, any other field by assignment. The class is needed by \<^verbatim>\<open>add\<close> only for
  an element that is no instance yet. Merging a collection into a single item, or a single
  item into a collection, leaves an object that is neither.
\<close>

fun mutateData :: "model \<Rightarrow> jsval \<Rightarrow> jsval \<Rightarrow> error + jsval"
and mutate_fields ::
  "model \<Rightarrow> (string \<times> jsval) list \<Rightarrow> (string \<times> jsval) list \<Rightarrow> error + (string \<times> jsval) list"
where
  "mutateData cls this (JCollection newItems newCount ns nf) =
     (case this of
        JCollection xs c s f \<Rightarrow>
          (if extend_flag f then
             (case add_all cls newItems this of
                Inl e \<Rightarrow> Inl e
              | Inr (JCollection xs' c' s' f') \<Rightarrow> Inr (JCollection xs' newCount s' f')
              | Inr _ \<Rightarrow> Inl Unmodelled)
           else Inr (JCollection newItems newCount s f))
      | JEntity fs n v s f \<Rightarrow>
          (if extend_flag f then
             (case add_all cls newItems this of Inl e \<Rightarrow> Inl e | Inr _ \<Rightarrow> Inl Unmodelled)
           else Inl Unmodelled)
      | JBare \<Rightarrow> Inl TypeError
      | _ \<Rightarrow> Inl Unmodelled)"
| "mutateData cls this (JEntity newFields newIsNew nv ns nf) =
     (case this of
        JEntity fs n v s f \<Rightarrow>
          (case mutate_fields cls fs newFields of
             Inl e \<Rightarrow> Inl e
           | Inr fs' \<Rightarrow> Inr (JEntity fs' newIsNew v s f))
      | JBare \<Rightarrow> Inl TypeError
      | _ \<Rightarrow> Inl Unmodelled)"
| "mutateData cls this JBare = Inl TypeError"
| "mutateData cls this newData = Inl Unmodelled"
| "mutate_fields cls fs [] = Inr fs"
| "mutate_fields cls fs ((key, val) # newFields) =
     (if is_instance (get_prop fs key) \<and> is_instance val then
        (case mutateData cls (get_prop fs key) val of
           Inl e \<Rightarrow> Inl e
         | Inr merged \<Rightarrow> mutate_fields cls (AList.update key merged fs) newFields)
      else mutate_fields cls (AList.update key val fs) newFields)"

section \<open>The fetch pipeline after the response\<close>

definition hasMatchedCollectionPattern :: "model \<Rightarrow> jsval \<Rightarrow> error + bool" where
  "hasMatchedCollectionPattern cls serverData =
     (case has serverData (collectionCountKey cls) of
        Inl e \<Rightarrow> Inl e
      | Inr False \<Rightarrow> Inr False
      | Inr True \<Rightarrow> has serverData (collectionDataKey cls))"

text \<open>
  The lines of \<^verbatim>\<open>fetch\<close> between \<^verbatim>\<open>await fetchResponse.json()\<close> and the
  construction: the data and the options handed to the constructor.
\<close>

definition fetch_data :: "model \<Rightarrow> jsval \<Rightarrow> error + jsval \<times> build_options" where
  "fetch_data cls serverData =
     (case hasMatchedCollectionPattern cls serverData of
        Inl e \<Rightarrow> Inl e
      | Inr True \<Rightarrow>
          (case get serverData (collectionDataKey cls) of
             Inl e \<Rightarrow> Inl e
           | Inr data \<Rightarrow>
               (case get serverData (collectionCountKey cls) of
                  Inl e \<Rightarrow> Inl e
                | Inr count \<Rightarrow> Inr (data, \<lparr>bo_isNew = Some False, bo_count = Some count\<rparr>)))
      | Inr False \<Rightarrow> Inr (serverData, \<lparr>bo_isNew = Some False, bo_count = None\<rparr>))"

definition formattedData :: "model \<Rightarrow> jsval \<Rightarrow> error + jsval" where
  "formattedData cls serverData =
     (case fetch_data cls serverData of
        Inl e \<Rightarrow> Inl e
      | Inr (data, dataOptions) \<Rightarrow> construct cls data dataOptions)"

text \<open>
  \<^verbatim>\<open>fetch(options)\<close> with the network as a parameter: the request fails (an error
  of the transport, the abort after the timeout, a status that is not ok), or it is answered
  with a parsed body. Building the URL and the request is left out; in the source it comes
  after the state flags are set and can reject. The hook \<^verbatim>\<open>onFetchError\<close> is taken
  to return. The result is the error that rejects the promise, if any, and the instance
  afterwards; a merge that throws is taken to leave the instance as it was before the merge.
\<close>

datatype outcome = Failed | Answered jsval

definition begin_states :: "string \<Rightarrow> states \<Rightarrow> states" where
  "begin_states method s =
     (if method = ''GET''
      then s\<lparr>fetchInProgress := True, fetchFailure := False, fetchSuccess := False\<rparr>
      else s\<lparr>saveInProgress := Some True, saveFailure := Some False, saveSuccess := Some False\<rparr>)"

definition failure_states :: "string \<Rightarrow> states \<Rightarrow> states" where
  "failure_states method s =
     (if method = ''GET'' then s\<lparr>fetchInProgress := False, fetchFailure := True\<rparr>
      else s\<lparr>saveInProgress := Some False, saveFailure := Some True\<rparr>)"

definition success_states :: "string \<Rightarrow> states \<Rightarrow> states" where
  "success_states method s =
     (if method = ''GET''
      then s\<lparr>fetchInProgress := False, fetchSuccess := True, fetchSuccessOnce := True\<rparr>
      else s\<lparr>saveInProgress := Some False, saveSuccess := Some True\<rparr>)"

fun map_states :: "(states \<Rightarrow> states) \<Rightarrow> jsval \<Rightarrow> error + jsval" where
  "map_states g (JEntity fs n v s f) = Inr (JEntity fs n v (g s) f)"
| "map_states g (JCollection xs c s f) = Inr (JCollection xs c (g s) f)"
| "map_states g this = Inl TypeError"

fun set_fetch :: "fetch_options \<Rightarrow> jsval \<Rightarrow> error + jsval" where
  "set_fetch options (JEntity fs n v s f) = Inr (JEntity fs n v s (Some options))"
| "set_fetch options (JCollection xs c s f) = Inr (JCollection xs c s (Some options))"
| "set_fetch options this = Inl TypeError"

definition fetch ::
  "model \<Rightarrow> fetch_options \<Rightarrow> outcome \<Rightarrow> jsval \<Rightarrow> error option \<times> jsval" where
  "fetch cls options outcome this =
     (if endpoint cls = [] then
        (Some (JsError ''[Modelize][Fetch] `endpoint` is required to perform a request''), this)
      else
        (case set_fetch options this of
           Inl e \<Rightarrow> (Some e, this)
         | Inr this0 \<Rightarrow>
             (case map_states (begin_states (fo_method options)) this0 of
                Inl e \<Rightarrow> (Some e, this0)
              | Inr this1 \<Rightarrow>
                  (case outcome of
                     Failed \<Rightarrow>
                       (case map_states (failure_states (fo_method options)) this1 of
                          Inl e \<Rightarrow> (Some e, this1)
                        | Inr this2 \<Rightarrow> (None, this2))
                   | Answered serverData \<Rightarrow>
                       (case formattedData cls serverData of
                          Inl e \<Rightarrow> (Some e, this1)
                        | Inr formatted \<Rightarrow>
                            (case mutateData cls this1 formatted of
                               Inl e \<Rightarrow> (Some e, this1)
                             | Inr this2 \<Rightarrow>
                                 (case map_states (success_states (fo_method options)) this2 of
                                    Inl e \<Rightarrow> (Some e, this2)
                                  | Inr this3 \<Rightarrow> (None, this3))))))))"

section \<open>Validation\<close>

text \<open>
  An element of the list given to \<^verbatim>\<open>valid\<close> is a field name, a pair of a field name
  and the list for the associated instance, or anything else. The second component of a
  pair is falsy (\<open>NoList\<close>), an array, or some other truthy value (\<open>NotArray\<close>).
\<close>

datatype selector = Direct string | Nested string fieldlist | Malformed
and fieldlist = NoList | NotArray | FieldList "selector list"

text \<open>
  The error object: \<^verbatim>\<open>{ error: 'NOT_FOUND' }\<close>,
  \<^verbatim>\<open>{ value, error: 'NOT_VALID' }\<close>, or the error object of a nested validation.
  \<open>None\<close> is \<^verbatim>\<open>null\<close>.
\<close>

datatype errval = NOT_FOUND | NOT_VALID jsval | Errors "(string \<times> errval) list"

type_synonym errors = "(string \<times> errval) list option"

definition mergeErrors :: "errors \<Rightarrow> string \<Rightarrow> errval option \<Rightarrow> errors" where
  "mergeErrors errors fieldname error =
     (case error of
        None \<Rightarrow> errors
      | Some e \<Rightarrow> Some (AList.update fieldname e (case errors of None \<Rightarrow> [] | Some m \<Rightarrow> m)))"

text \<open>\<^verbatim>\<open>this.$modelize.validator[fieldname].checked = true\<close>\<close>

fun set_checked :: "string \<Rightarrow> jsval \<Rightarrow> error + jsval" where
  "set_checked fieldname (JEntity fs n v s f) =
     (if has_key v fieldname then Inr (JEntity fs n (AList.update fieldname True v) s f)
      else Inl TypeError)"
| "set_checked fieldname this = Inl TypeError"

fun set_field :: "string \<Rightarrow> jsval \<Rightarrow> jsval \<Rightarrow> jsval" where
  "set_field fieldname val (JEntity fs n v s f) = JEntity (AList.update fieldname val fs) n v s f"
| "set_field fieldname val this = this"

text \<open>
  One round of the loop for a field name. Results are the thrown error or the error object
  so far, and the instance as the round leaves it.
\<close>

definition direct_step ::
  "model \<Rightarrow> string \<Rightarrow> errors \<Rightarrow> jsval \<Rightarrow> (error + errors) \<times> jsval" where
  "direct_step cls fieldname errors this =
     (case has this fieldname of
        Inl e \<Rightarrow> (Inl e, this)
      | Inr False \<Rightarrow> (Inr (mergeErrors errors fieldname (Some NOT_FOUND)), this)
      | Inr True \<Rightarrow>
          (case set_checked fieldname this of
             Inl e \<Rightarrow> (Inl e, this)
           | Inr this' \<Rightarrow>
               (case get this' fieldname of
                  Inl e \<Rightarrow> (Inl e, this')
                | Inr val \<Rightarrow>
                    (case call_isValid cls fieldname val this' of
                       Inl e \<Rightarrow> (Inl e, this')
                     | Inr r \<Rightarrow>
                         (Inr (if r = JBool False
                               then mergeErrors errors fieldname (Some (NOT_VALID val))
                               else errors), this')))))"

text \<open>
  \<^verbatim>\<open>this[fieldname].forEach(item => mergeErrors(fieldname, item._getValidationErrors(fieldlist)))\<close>;
  \<open>rec\<close> is the nested call.
\<close>

fun validate_items ::
  "(jsval \<Rightarrow> (error + errors) \<times> jsval) \<Rightarrow> string \<Rightarrow> jsval list \<Rightarrow> errors
     \<Rightarrow> (error + errors) \<times> jsval list"
where
  "validate_items rec fieldname [] errors = (Inr errors, [])"
| "validate_items rec fieldname (item # rest) errors =
     (if is_instance item then
        (case rec item of
           (Inl e, item') \<Rightarrow> (Inl e, item' # rest)
         | (Inr sub, item') \<Rightarrow>
             (case validate_items rec fieldname rest
                     (mergeErrors errors fieldname (map_option Errors sub)) of
                (r, rest') \<Rightarrow> (r, item' # rest')))
      else (Inl TypeError, item # rest))"

definition validate_one ::
  "(jsval \<Rightarrow> (error + errors) \<times> jsval) \<Rightarrow> string \<Rightarrow> errors \<Rightarrow> jsval
     \<Rightarrow> (error + errors) \<times> jsval" where
  "validate_one rec fieldname errors this =
     (case get this fieldname of
        Inl e \<Rightarrow> (Inl e, this)
      | Inr val \<Rightarrow>
          if val = JNull then (Inr errors, this)
          else if is_instance val then
            (case rec val of
               (Inl e, val') \<Rightarrow> (Inl e, set_field fieldname val' this)
             | (Inr sub, val') \<Rightarrow>
                 (Inr (mergeErrors errors fieldname (map_option Errors sub)),
                  set_field fieldname val' this))
          else (Inl TypeError, this))"

definition validate_many ::
  "(jsval \<Rightarrow> (error + errors) \<times> jsval) \<Rightarrow> string \<Rightarrow> errors \<Rightarrow> jsval
     \<Rightarrow> (error + errors) \<times> jsval" where
  "validate_many rec fieldname errors this =
     (case get this fieldname of
        Inl e \<Rightarrow> (Inl e, this)
      | Inr (JCollection xs c s f) \<Rightarrow>
          (case validate_items rec fieldname xs errors of
             (r, xs') \<Rightarrow> (r, set_field fieldname (JCollection xs' c s f) this))
      | Inr (JArr xs) \<Rightarrow>
          (case validate_items rec fieldname xs errors of
             (r, xs') \<Rightarrow> (r, set_field fieldname (JArr xs') this))
      | Inr (JEntity fs n v s f) \<Rightarrow>
          (Inl (JsError ''[Modelize] Cannot use a collection method on a single item instance''),
           this)
      | Inr _ \<Rightarrow> (Inl TypeError, this))"

text \<open>
  One round of the loop for a pair. \<open>has_list\<close> is the truthiness of the second
  component, \<open>rec M\<close> the call \<^verbatim>\<open>_getValidationErrors(fieldlist)\<close> on an instance of
  the associated class \<open>M\<close>.
\<close>

definition nested_step ::
  "model \<Rightarrow> string \<Rightarrow> bool \<Rightarrow> (model \<Rightarrow> jsval \<Rightarrow> (error + errors) \<times> jsval) \<Rightarrow> errors
     \<Rightarrow> jsval \<Rightarrow> (error + errors) \<times> jsval" where
  "nested_step cls fieldname has_list rec errors this =
     (case has this fieldname of
        Inl e \<Rightarrow> (Inl e, this)
      | Inr False \<Rightarrow> (Inr (mergeErrors errors fieldname (Some NOT_FOUND)), this)
      | Inr True \<Rightarrow>
          (case set_checked fieldname this of
             Inl e \<Rightarrow> (Inl e, this)
           | Inr this1 \<Rightarrow>
               (case direct_step cls fieldname None this1 of
                  (Inl e, this2) \<Rightarrow> (Inl e, this2)
                | (Inr own, this2) \<Rightarrow>
                    (let errors1 = mergeErrors errors fieldname (map_option Errors own)
                     in if \<not> has_list then (Inr errors1, this2)
                        else (case map_of (schema cls) fieldname of
                                None \<Rightarrow> (Inl TypeError, this2)
                              | Some fieldconf \<Rightarrow>
                                  (case t_association (fc_type fieldconf) of
                                     BelongsTo M \<Rightarrow> validate_one (rec M) fieldname errors1 this2
                                   | HasOne M \<Rightarrow> validate_one (rec M) fieldname errors1 this2
                                   | HasMany M \<Rightarrow> validate_many (rec M) fieldname errors1 this2
                                   | NoAssociation \<Rightarrow> (Inr errors1, this2)))))))"

definition not_an_array :: error where
  "not_an_array = JsError ''[Modelize][Validation] .valid() params must be an array''"

text \<open>
  The loop of \<^verbatim>\<open>_getValidationErrors\<close> over the elements, from the error object
  \<open>errors\<close> on. The nested call starts with \<^verbatim>\<open>errors = null\<close> and throws first
  when its argument is no array.
\<close>

fun validation_loop ::
  "model \<Rightarrow> selector list \<Rightarrow> errors \<Rightarrow> jsval \<Rightarrow> (error + errors) \<times> jsval"
where
  "validation_loop cls [] errors this = (Inr errors, this)"
| "validation_loop cls (Direct fieldname # rest) errors this =
     (case direct_step cls fieldname errors this of
        (Inl e, this') \<Rightarrow> (Inl e, this')
      | (Inr errors', this') \<Rightarrow> validation_loop cls rest errors' this')"
| "validation_loop cls (Nested fieldname arg # rest) errors this =
     (case nested_step cls fieldname (arg \<noteq> NoList)
             (\<lambda>M sub. case arg of
                         FieldList fl \<Rightarrow> validation_loop M fl None sub
                       | _ \<Rightarrow> (Inl not_an_array, sub))
             errors this of
        (Inl e, this') \<Rightarrow> (Inl e, this')
      | (Inr errors', this') \<Rightarrow> validation_loop cls rest errors' this')"
| "validation_loop cls (Malformed # rest) errors this =
     (Inl (JsError ''[Modelize][Validation] Syntax error''), this)"

definition getValidationErrors ::
  "model \<Rightarrow> fieldlist \<Rightarrow> jsval \<Rightarrow> (error + errors) \<times> jsval" where
  "getValidationErrors cls fieldlist this =
     (case fieldlist of
        FieldList fl \<Rightarrow> validation_loop cls fl None this
      | _ \<Rightarrow> (Inl not_an_array, this))"

text \<open>
  \<^verbatim>\<open>valid(fieldlist)\<close>. The three assignments come first; they need
  \<^verbatim>\<open>this.$modelize.states\<close>. The result is the thrown error or the boolean, the
  argument handed to the hook \<^verbatim>\<open>onValidationError\<close> (\<open>None\<close>: not called), and the
  instance afterwards. The hook is taken to return and to leave the instance alone.
\<close>

definition reset_save :: "states \<Rightarrow> states" where
  "reset_save s = s\<lparr>saveInProgress := Some False, saveFailure := Some False,
     saveSuccess := Some False\<rparr>"

fun reset_save_states :: "jsval \<Rightarrow> error + jsval" where
  "reset_save_states (JEntity fs n v s f) = Inr (JEntity fs n v (reset_save s) f)"
| "reset_save_states (JCollection xs c s f) = Inr (JCollection xs c (reset_save s) f)"
| "reset_save_states this = Inl TypeError"

definition valid :: "model \<Rightarrow> fieldlist \<Rightarrow> jsval \<Rightarrow> (error + bool) \<times> errors \<times> jsval" where
  "valid cls fieldlist this =
     (case reset_save_states this of
        Inl e \<Rightarrow> (Inl e, None, this)
      | Inr this1 \<Rightarrow>
          (case getValidationErrors cls fieldlist this1 of
             (Inl e, this2) \<Rightarrow> (Inl e, None, this2)
           | (Inr errors, this2) \<Rightarrow> (Inr (errors = None), errors, this2)))"

text \<open>\<^verbatim>\<open>error(fieldname)\<close>: checked and not valid.\<close>

fun field_error :: "model \<Rightarrow> string \<Rightarrow> jsval \<Rightarrow> error + jsval" where
  "field_error cls fieldname (JEntity fs n v s f) =
     (case map_of v fieldname of
        None \<Rightarrow> Inl TypeError
      | Some checked \<Rightarrow>
          if \<not> checked then Inr (JBool False)
          else (case call_isValid cls fieldname (get_prop fs fieldname) (JEntity fs n v s f) of
                  Inl e \<Rightarrow> Inl e
                | Inr r \<Rightarrow> Inr (js_not r)))"
| "field_error cls fieldname this = Inl TypeError"

section \<open>Serialization\<close>

text \<open>
  The loop of \<^verbatim>\<open>_beforeSaveItem\<close> over the validator table: \<open>newItem\<close> is the
  object built so far. With \<^verbatim>\<open>removeInvalid\<close> a field is written when its entry is
  checked and its \<^verbatim>\<open>isValid\<close> answers truthy; \<^verbatim>\<open>isValid\<close> is not called for an
  unchecked entry.
\<close>

fun save_loop ::
  "model \<Rightarrow> save_options \<Rightarrow> jsval \<Rightarrow> (string \<times> bool) list \<Rightarrow> (string \<times> jsval) list
     \<Rightarrow> error + (string \<times> jsval) list"
where
  "save_loop cls options this [] newItem = Inr newItem"
| "save_loop cls options this ((fieldname, checked) # rest) newItem =
     (case get this fieldname of
        Inl e \<Rightarrow> Inl e
      | Inr val \<Rightarrow>
          (case (if removeInvalid options then
                   (if checked then
                      (case call_isValid cls fieldname val this of
                         Inl e \<Rightarrow> Inl e
                       | Inr r \<Rightarrow> Inr (truthy r))
                    else Inr False)
                 else Inr True) of
             Inl e \<Rightarrow> Inl e
           | Inr False \<Rightarrow> save_loop cls options this rest newItem
           | Inr True \<Rightarrow>
               (case map_of (schema cls) fieldname of
                  None \<Rightarrow> Inl TypeError
                | Some fieldconf \<Rightarrow>
                    (case t_beforeSave (fc_type fieldconf) val options of
                       Inl e \<Rightarrow> Inl e
                     | Inr saved \<Rightarrow>
                         save_loop cls options this rest
                           (AList.update fieldname saved newItem)))))"

text \<open>
  \<^verbatim>\<open>_beforeSaveItem(options)\<close>. On a collection \<^verbatim>\<open>this.$modelize.validator\<close> is
  \<^verbatim>\<open>undefined\<close> and the loop has no round.
\<close>

fun beforeSaveItem :: "model \<Rightarrow> save_options \<Rightarrow> jsval \<Rightarrow> error + jsval" where
  "beforeSaveItem cls options (JEntity fs n v s f) =
     (case save_loop cls options (JEntity fs n v s f) v [] of
        Inl e \<Rightarrow> Inl e
      | Inr newItem \<Rightarrow> Inr (JObj newItem))"
| "beforeSaveItem cls options (JCollection xs c s f) = Inr (JObj [])"
| "beforeSaveItem cls options this = Inl TypeError"

fun save_items :: "model \<Rightarrow> save_options \<Rightarrow> jsval list \<Rightarrow> error + jsval list" where
  "save_items cls options [] = Inr []"
| "save_items cls options (item # rest) =
     (if is_instance item then
        (case beforeSaveItem cls options item of
           Inl e \<Rightarrow> Inl e
         | Inr saved \<Rightarrow>
             (case save_items cls options rest of
                Inl e \<Rightarrow> Inl e
              | Inr saved_rest \<Rightarrow> Inr (saved # saved_rest)))
      else Inl TypeError)"

text \<open>\<^verbatim>\<open>_beforeSave(options)\<close>\<close>

fun beforeSave :: "model \<Rightarrow> save_options \<Rightarrow> jsval \<Rightarrow> error + jsval" where
  "beforeSave cls options (JCollection xs c s f) =
     (case save_items cls options xs of Inl e \<Rightarrow> Inl e | Inr saved \<Rightarrow> Inr (JArr saved))"
| "beforeSave cls options (JEntity fs n v s f) =
     beforeSaveItem cls options (JEntity fs n v s f)"
| "beforeSave cls options this = Inl TypeError"

section \<open>Field types of the table\<close>

fun isString :: "jsval \<Rightarrow> bool" where
  "isString (JStr s) = True"
| "isString _ = False"

fun isDate :: "jsval \<Rightarrow> bool" where
  "isDate (JDate d) = True"
| "isDate _ = False"

definition STRING :: fieldtype where
  "STRING = FieldType (\<lambda>_. JStr []) (\<lambda>val. JBool (val = JStr []))
     (\<lambda>val. JBool (isString val)) (\<lambda>val options. Inr val) (\<lambda>val options. val)
     NoAssociation"

text \<open>
  \<^verbatim>\<open>PHONE.beforeSave\<close> walks the string and keeps a \<^verbatim>\<open>+\<close> while nothing is kept
  yet, and every character \<^verbatim>\<open>n\<close> with \<^verbatim>\<open>isInteger(Number.parseInt(n))\<close>: of a
  one-character string \<^verbatim>\<open>parseInt\<close> makes an integer exactly for a decimal digit.
  \<^verbatim>\<open>for ... of\<close> throws on a value that is not iterable; the elements of an array would
  go through \<^verbatim>\<open>parseInt\<close> of arbitrary values.
\<close>

definition is_digit :: "char \<Rightarrow> bool" where
  "is_digit n = (n \<in> set ''0123456789'')"

fun sanitize :: "string \<Rightarrow> string \<Rightarrow> string" where
  "sanitize sanitizedPhone [] = sanitizedPhone"
| "sanitize sanitizedPhone (n # val) =
     sanitize (if (sanitizedPhone = [] \<and> n = CHR ''+'') \<or> is_digit n
               then sanitizedPhone @ [n] else sanitizedPhone) val"

fun PHONE_beforeSave :: "jsval \<Rightarrow> save_options \<Rightarrow> error + jsval" where
  "PHONE_beforeSave (JStr s) options = Inr (JStr (sanitize [] s))"
| "PHONE_beforeSave (JArr xs) options = Inl Unmodelled"
| "PHONE_beforeSave val options = Inl TypeError"

definition PHONE :: fieldtype where
  "PHONE = FieldType (\<lambda>_. JStr []) (\<lambda>val. JBool (val = JStr []))
     (\<lambda>val. JBool (isString val)) PHONE_beforeSave (\<lambda>val options. val) NoAssociation"

text \<open>
  The date types rest on functions that are not part of the sources: the helpers
  \<^verbatim>\<open>parseDate\<close> and \<^verbatim>\<open>prependZero\<close>, and the methods of \<^verbatim>\<open>Date\<close>, of which
  \<^verbatim>\<open>getFullYear\<close>, \<^verbatim>\<open>getMonth\<close> and \<^verbatim>\<open>getDate\<close> read the local time zone. They
  are parameters.
\<close>

record date_env =
  parseDate :: "string \<Rightarrow> jsval"
  prependZero :: "int \<Rightarrow> string"
  toISOString :: "int \<Rightarrow> string"
  getFullYear :: "int \<Rightarrow> int"
  getMonth :: "int \<Rightarrow> int"
  getDate :: "int \<Rightarrow> int"

fun date_beforeBuild :: "date_env \<Rightarrow> jsval \<Rightarrow> build_options \<Rightarrow> jsval" where
  "date_beforeBuild env (JStr s) options = (if s \<noteq> [] then parseDate env s else JNull)"
| "date_beforeBuild env (JDate d) options = JDate d"
| "date_beforeBuild env val options = JNull"

fun DATE_beforeSave :: "date_env \<Rightarrow> jsval \<Rightarrow> save_options \<Rightarrow> error + jsval" where
  "DATE_beforeSave env (JDate d) options = Inr (JStr (toISOString env d))"
| "DATE_beforeSave env val options = Inr JNull"

text \<open>The template string \<^verbatim>\<open>`${year}-${month}-${day}`\<close> of \<^verbatim>\<open>DATEONLY.beforeSave\<close>.\<close>

definition dateonly_string :: "date_env \<Rightarrow> int \<Rightarrow> string" where
  "dateonly_string env d =
     number_to_string (getFullYear env d) @ ''-'' @ prependZero env (getMonth env d + 1)
       @ ''-'' @ prependZero env (getDate env d)"

fun DATEONLY_beforeSave :: "date_env \<Rightarrow> jsval \<Rightarrow> save_options \<Rightarrow> error + jsval" where
  "DATEONLY_beforeSave env (JDate d) options = Inr (JStr (dateonly_string env d))"
| "DATEONLY_beforeSave env val options = Inr JNull"

definition DATE :: "date_env \<Rightarrow> fieldtype" where
  "DATE env = FieldType (\<lambda>_. JNull) (\<lambda>val. JBool (val = JNull)) (\<lambda>val. JBool (isDate val))
     (DATE_beforeSave env) (date_beforeBuild env) NoAssociation"

definition DATEONLY :: "date_env \<Rightarrow> fieldtype" where
  "DATEONLY env = FieldType (\<lambda>_. JNull) (\<lambda>val. JBool (val = JNull)) (\<lambda>val. JBool (isDate val))
     (DATEONLY_beforeSave env) (date_beforeBuild env) NoAssociation"

text \<open>
  What \<^verbatim>\<open>Model.init\<close> makes of a field declared with a type and the
  \<^verbatim>\<open>primaryKey\<close> flag only: the default of the type, blank not allowed, the permissive
  \<^verbatim>\<open>isValid\<close>, and \<^verbatim>\<open>autoChecked\<close> for the primary key and the two timestamps.
\<close>

definition init_field :: "string \<Rightarrow> fieldtype \<Rightarrow> bool \<Rightarrow> string \<times> fieldconf" where
  "init_field fieldname type primaryKey =
     (fieldname,
      FieldConf type primaryKey (t_defaultValue type) (\<lambda>val data. JBool False)
        (\<lambda>val data. JBool True)
        (primaryKey \<or> fieldname = ''createdAt'' \<or> fieldname = ''updatedAt''))"

section \<open>A model class for the examples\<close>

text \<open>
  \<^verbatim>\<open>User.init({ id: { type: STRING, primaryKey: true }, name: { type: STRING } },
  { endpoint: 'users' })\<close> under the default configuration.
\<close>

definition User :: model where
  "User = Model [init_field ''id'' STRING True, init_field ''name'' STRING False]
     (Some ''id'') True ''rows'' ''count'' ''users''"

text \<open>Instances of \<open>User\<close>, as the constructor builds them.\<close>

definition blank_user :: jsval where
  "blank_user = JEntity [(''id'', JStr []), (''name'', JStr [])] True
           [(''id'', True), (''name'', False)] item_states None"

definition ann :: jsval where
  "ann = JEntity [(''id'', JStr ''u1''), (''name'', JStr ''Ann'')] True
           [(''id'', True), (''name'', False)] item_states None"

definition ann_twin :: jsval where
  "ann_twin = JEntity [(''id'', JStr ''u1''), (''name'', JStr ''Ann B.'')] True
           [(''id'', True), (''name'', False)] item_states None"

text \<open>
  An environment for the examples in which every \<^verbatim>\<open>Date\<close> is the epoch, read in UTC.
\<close>

definition epoch_env :: date_env where
  "epoch_env = \<lparr>
     parseDate = (\<lambda>s. if s = ''1970-01-01T00:00:00.000Z'' \<or> s = ''1970-01-01'' then JDate 0
                     else JNull),
     prependZero = (\<lambda>n. if n < 10 then CHR ''0'' # number_to_string n else number_to_string n),
     toISOString = (\<lambda>d. ''1970-01-01T00:00:00.000Z''),
     getFullYear = (\<lambda>d. 1970),
     getMonth = (\<lambda>d. 0),
     getDate = (\<lambda>d. 1)\<rparr>"

definition ann_saved :: jsval where
  "ann_saved = JEntity [(''id'', JStr ''u1''), (''name'', JStr ''Ann'')] False
           [(''id'', True), (''name'', False)]
           (item_states\<lparr>saveSuccess := Some True\<rparr>) None"

section \<open>Notions of the specification\<close>

text \<open>An item matches a reference when the callback made for the reference answers truthy.\<close>

definition matches :: "model \<Rightarrow> ref \<Rightarrow> jsval \<Rightarrow> bool" where
  "matches cls ref item =
     (case getCollectionCallback cls ref item of Inl e \<Rightarrow> False | Inr r \<Rightarrow> truthy r)"

text \<open>The invariant of a collection: \<^verbatim>\<open>length <= $modelize.count\<close>.\<close>

fun length_le_count :: "jsval \<Rightarrow> bool" where
  "length_le_count (JCollection xs c s f) = (int (length xs) \<le> c)"
| "length_le_count _ = False"

text \<open>
  The wire format of a phone number: nothing, or a \<^verbatim>\<open>+\<close> or a digit followed by
  digits.
\<close>

fun phone_canonical :: "string \<Rightarrow> bool" where
  "phone_canonical [] = True"
| "phone_canonical (c # cs) = ((c = CHR ''+'' \<or> is_digit c) \<and> list_all is_digit cs)"

text \<open>
  What the date types need of \<^verbatim>\<open>parseDate\<close>: that it reads the ISO string of a date
  back to that date, and a date-only string back to a date on the same local day.
\<close>

definition parses_back :: "date_env \<Rightarrow> int \<Rightarrow> bool" where
  "parses_back env d =
     (toISOString env d \<noteq> [] \<and> parseDate env (toISOString env d) = JDate d)"

definition parses_back_day :: "date_env \<Rightarrow> int \<Rightarrow> bool" where
  "parses_back_day env d =
     (case parseDate env (dateonly_string env d) of
        JDate d' \<Rightarrow> getFullYear env d' = getFullYear env d \<and> getMonth env d' = getMonth env d
                      \<and> getDate env d' = getDate env d
      | _ \<Rightarrow> False)"

text \<open>The state flags of an instance, if it has the block \<^verbatim>\<open>$modelize\<close>.\<close>

fun states_of :: "jsval \<Rightarrow> states option" where
  "states_of (JEntity fs n v s f) = Some s"
| "states_of (JCollection xs c s f) = Some s"
| "states_of _ = None"

text \<open>The error object maps a field to \<^verbatim>\<open>{ error: 'NOT_FOUND' }\<close>.\<close>

definition has_not_found :: "string \<Rightarrow> errors \<Rightarrow> bool" where
  "has_not_found f errors =
     (case errors of None \<Rightarrow> False | Some m \<Rightarrow> map_of m f = Some NOT_FOUND)"

text \<open>
  The condition of \<^verbatim>\<open>_beforeSaveItem\<close> on an entry of the validator table: no
  \<^verbatim>\<open>removeInvalid\<close>, or checked and currently valid.
\<close>

definition serialized_field :: "model \<Rightarrow> save_options \<Rightarrow> jsval \<Rightarrow> string \<times> bool \<Rightarrow> bool" where
  "serialized_field cls options this entry =
     (case entry of (fieldname, checked) \<Rightarrow>
        \<not> removeInvalid options \<or>
        (checked \<and>
         (case get this fieldname of
            Inl e \<Rightarrow> False
          | Inr val \<Rightarrow>
              (case call_isValid cls fieldname val this of Inl e \<Rightarrow> False | Inr r \<Rightarrow> truthy r))))"

section \<open>Properties\<close>

lemma truthy_js_and: "truthy (js_and a b) = (truthy a \<and> truthy b)"
  by (simp add: js_and_def)

lemma truthy_js_or: "truthy (js_or a b) = (truthy a \<or> truthy b)"
  by (simp add: js_or_def)

lemma truthy_js_not: "truthy (js_not a) = (\<not> truthy a)"
  by (simp add: js_not_def)

lemma map_of_map_keyed:
  "map_of (map (\<lambda>(k, v). (k, g k v)) xs) k = map_option (g k) (map_of xs k)"
  by (induction xs) auto

subsection \<open>The validity rule of a field\<close>

text \<open>
  Claim C4. For a field of the schema, the entry that \<^verbatim>\<open>_buildValidator\<close> makes starts
  with the \<^verbatim>\<open>autoChecked\<close> flag of the field, and its \<^verbatim>\<open>isValid(v, e)\<close> answers
  truthy exactly when the value is blank for the field type and the schema allows the
  blank, or is not blank and valid for the field type; and, in both cases, the
  \<^verbatim>\<open>isValid\<close> function of the schema accepts \<open>(v, e)\<close>. When the four
  tests answer booleans, so does \<^verbatim>\<open>isValid(v, e)\<close>, with that value.
\<close>

theorem validator_isValid_rule:
  assumes "map_of (schema cls) fieldname = Some fieldconf"
  shows "map_of (buildValidator cls) fieldname = Some (fc_autoChecked fieldconf) \<and>
         call_isValid cls fieldname v e = Inr (validator_isValid fieldconf v e) \<and>
         (truthy (validator_isValid fieldconf v e) \<longleftrightarrow>
             ((truthy (t_isBlank (fc_type fieldconf) v) \<and> truthy (fc_allowBlank fieldconf v e))
              \<or> (\<not> truthy (t_isBlank (fc_type fieldconf) v)
                  \<and> truthy (t_isValid (fc_type fieldconf) v)))
             \<and> truthy (fc_isValid fieldconf v e)) \<and>
         (t_isBlank (fc_type fieldconf) v = JBool blank \<and>
          fc_allowBlank fieldconf v e = JBool allowed \<and>
          t_isValid (fc_type fieldconf) v = JBool typeValid \<and>
          fc_isValid fieldconf v e = JBool custom \<longrightarrow>
            validator_isValid fieldconf v e
              = JBool (((blank \<and> allowed) \<or> (\<not> blank \<and> typeValid)) \<and> custom))"
  using assms
  by (auto simp: buildValidator_def map_of_map_keyed call_isValid_def validator_isValid_def
      Let_def truthy_js_and truthy_js_or truthy_js_not js_and_def js_or_def js_not_def)

theorem validator_isValid_rule_witness:
  "map_of (schema User) ''name'' = Some (snd (init_field ''name'' STRING False)) \<and>
   call_isValid User ''name'' (JStr ''Ann'') JNull = Inr (JBool True) \<and>
   call_isValid User ''name'' (JStr []) JNull = Inr (JBool False) \<and>
   call_isValid User ''name'' (JNum 3) JNull = Inr (JBool False)"
  using
    validator_isValid_rule [of User "''name''" "snd (init_field ''name'' STRING False)"
      "JStr ''Ann''" JNull False False True True]
    validator_isValid_rule [of User "''name''" "snd (init_field ''name'' STRING False)"
      "JStr []" JNull True False True True]
    validator_isValid_rule [of User "''name''" "snd (init_field ''name'' STRING False)"
      "JNum 3" JNull False False False True]
  by (simp add: User_def init_field_def STRING_def validator_isValid_def js_and_def js_or_def
      js_not_def)

subsection \<open>The primary key of a raw item\<close>

text \<open>
  Claim C10. In a class whose primary-key field is in the schema, \<^verbatim>\<open>_buildRawItem\<close>
  returns, and the primary key of the raw item is chosen by truthiness: the property
  \<^verbatim>\<open>primaryKey\<close> of the item if truthy, else the item's primary-key field if truthy,
  else the default of the field. So an empty string, \<open>0\<close>, \<^verbatim>\<open>null\<close> or
  \<^verbatim>\<open>false\<close> supplied as primary key is replaced by the default.
\<close>

theorem buildRawItem_primaryKey:
  assumes "primaryKeyFieldname cls = Some k" and "map_of (schema cls) k = Some fieldconf"
  shows "\<exists>rawItem. buildRawItem cls item = Inr rawItem \<and>
           map_of rawItem k =
             Some (if truthy (get_prop item ''primaryKey'') then get_prop item ''primaryKey''
                   else if truthy (get_prop item k) then get_prop item k
                   else fc_defaultValue fieldconf JUndefined) \<and>
           (\<not> truthy (get_prop item ''primaryKey'') \<and>
            get_prop item k \<in> {JStr [], JNum 0, JNull, JBool False} \<longrightarrow>
              map_of rawItem k = Some (fc_defaultValue fieldconf JUndefined))"
  using assms
  by (auto simp: buildRawItem_def resolve_primaryKey_def pk_key_def map_of_map_keyed)

theorem buildRawItem_primaryKey_witness:
  "primaryKeyFieldname User = Some ''id'' \<and>
   map_of (schema User) ''id'' = Some (snd (init_field ''id'' STRING True)) \<and>
   buildRawItem User [(''id'', JNum 0), (''name'', JStr ''Ann'')]
     = Inr [(''id'', JStr []), (''name'', JStr ''Ann'')] \<and>
   buildRawItem User [(''id'', JStr ''u1'')] = Inr [(''id'', JStr ''u1''), (''name'', JStr [])] \<and>
   buildRawItem User [(''primaryKey'', JStr ''p''), (''id'', JStr ''u1'')]
     = Inr [(''id'', JStr ''p''), (''name'', JStr [])]"
  using buildRawItem_primaryKey [of User "''id''" "snd (init_field ''id'' STRING True)"
      "[(''id'', JNum 0), (''name'', JStr ''Ann'')]"]
  by (simp add: User_def init_field_def STRING_def buildRawItem_def resolve_primaryKey_def
      pk_key_def get_prop_def has_key_def)


subsection \<open>Collections\<close>

lemma some_total:
  assumes "\<forall>x\<in>set xs. \<exists>r. cb x = Inr r"
  shows "some cb xs = Inr (\<exists>x\<in>set xs. case cb x of Inl e \<Rightarrow> False | Inr r \<Rightarrow> truthy r)"
  using assms by (induction xs) (auto split: sum.splits)

lemma findIndex_None:
  "findIndex cb xs = Inr None \<Longrightarrow> \<forall>x\<in>set xs. \<exists>r. cb x = Inr r \<and> \<not> truthy r"
  by (induction xs) (auto split: sum.splits if_splits option.splits)

lemma findIndex_Some:
  "findIndex cb xs = Inr (Some i) \<Longrightarrow>
     i < length xs \<and> (\<exists>r. cb (xs ! i) = Inr r \<and> truthy r) \<and>
     (\<forall>j<i. \<exists>r. cb (xs ! j) = Inr r \<and> \<not> truthy r)"
proof (induction xs arbitrary: i)
  case Nil
  then show ?case by simp
next
  case (Cons x xs)
  show ?case
  proof (cases "cb x")
    case (Inl e)
    with Cons.prems show ?thesis by simp
  next
    case (Inr r)
    show ?thesis
    proof (cases "truthy r")
      case True
      with Inr Cons.prems show ?thesis by auto
    next
      case False
      with Inr Cons.prems obtain k where k: "findIndex cb xs = Inr (Some k)" "i = Suc k"
        by (auto split: sum.splits option.splits)
      from Cons.IH [OF k(1)] Inr False k(2) show ?thesis
        by (auto simp: less_Suc_eq_0_disj)
    qed
  qed
qed

lemma findIndex_total:
  assumes "\<forall>x\<in>set xs. \<exists>r. cb x = Inr r"
  shows "\<exists>res. findIndex cb xs = Inr res \<and>
           (res = None \<longleftrightarrow> \<not> (\<exists>x\<in>set xs. case cb x of Inl e \<Rightarrow> False | Inr r \<Rightarrow> truthy r))"
  using assms by (induction xs) (auto split: sum.splits option.splits)

lemma remove_missing:
  assumes "findIndex (getCollectionCallback cls ref) xs = Inr None"
  shows "remove cls ref (JCollection xs c s f) = Inr (JNull, JCollection xs c s f)"
  using assms by simp

lemma remove_found:
  assumes "findIndex (getCollectionCallback cls ref) xs = Inr (Some i)"
  shows "remove cls ref (JCollection xs c s f) =
           Inr (JArr [xs ! i], JCollection (take i xs @ drop (Suc i) xs) (c - 1) s f)"
proof -
  from findIndex_Some [OF assms] have "i < length xs" by simp
  then have "take 1 (drop i xs) = [xs ! i]"
    by (simp add: take_Suc_conv_app_nth [of 0] hd_drop_conv_nth take_Suc)
  with assms show ?thesis by simp
qed

lemma length_remove_nth:
  "i < length xs \<Longrightarrow> length (take i xs @ drop (Suc i) xs) = length xs - 1"
  by simp

lemma filter_remove_nth:
  assumes "i < length xs" and "P (xs ! i)"
  shows "length (filter P (take i xs @ drop (Suc i) xs)) = length (filter P xs) - 1"
proof -
  have "xs = take i xs @ xs ! i # drop (Suc i) xs"
    using assms(1) by (rule id_take_nth_drop)
  then have "filter P xs = filter P (take i xs) @ xs ! i # filter P (drop (Suc i) xs)"
    using assms(2) by (metis filter.simps(2) filter_append)
  then show ?thesis by simp
qed

lemma construct_items_length:
  "construct_items cls data options (acc, n) = Inr (acc', n') \<Longrightarrow>
     length acc' = length acc + length data \<and> n' = n + int (length data)"
proof (induction data arbitrary: acc n)
  case Nil
  then show ?case by simp
next
  case (Cons item data)
  from Cons.prems obtain inst where
    "construct_items cls data options (acc @ [inst], n + 1) = Inr (acc', n')"
    by (auto split: sum.splits)
  from Cons.IH [OF this] show ?case by simp
qed

lemma construct_items_add:
  "construct_items cls (item # data) options (xs, c) =
     (case add cls item options (JCollection xs c s f) of
        Inl e \<Rightarrow> Inl e
      | Inr (inst, this') \<Rightarrow> construct_items cls data options (xs @ [inst], c + 1))"
  by (auto simp: add_def make_instance_def split: sum.splits)

lemma construct_array:
  assumes "construct cls (JArr data) options = Inr this"
  shows "\<exists>xs c. this = JCollection xs c collection_states None \<and> length xs = length data \<and>
           (bo_count options = None \<longrightarrow> c = int (length data)) \<and>
           (\<forall>k. bo_count options = Some (JNum k) \<longrightarrow> c = k)"
proof -
  from assms obtain acc n where
    ci: "construct_items cls data (with_defaults options) ([], 0) = Inr (acc, n)"
    by (auto split: sum.splits)
  from construct_items_length [OF ci] have l: "length acc = length data" "n = int (length data)"
    by simp_all
  from assms ci l show ?thesis
    by (auto split: option.splits jsval.splits)
qed

lemma add_result:
  assumes "add cls item options (JCollection xs c s f) = Inr (inst, this')"
  shows "make_instance cls item options = Inr inst \<and>
         this' = JCollection (xs @ [inst]) (c + 1) s f"
  using assms by (auto simp: add_def split: sum.splits)

lemma add_all_result:
  "add_all cls newItems (JCollection xs c s f) = Inr this' \<Longrightarrow>
     \<exists>zs. length zs = length newItems \<and>
          this' = JCollection (xs @ zs) (c + int (length newItems)) s f"
proof (induction newItems arbitrary: xs c)
  case Nil
  then show ?case by simp
next
  case (Cons newItem newItems)
  from Cons.prems obtain inst this1 where
    a: "add cls newItem no_options (JCollection xs c s f) = Inr (inst, this1)"
    and r: "add_all cls newItems this1 = Inr this'"
    by (auto split: sum.splits)
  from add_result [OF a] have t: "this1 = JCollection (xs @ [inst]) (c + 1) s f" by simp
  from Cons.IH [OF r [unfolded t]] obtain zs where
    "length zs = length newItems"
    "this' = JCollection ((xs @ [inst]) @ zs) (c + 1 + int (length newItems)) s f"
    by blast
  then show ?case
    by (intro exI [of _ "inst # zs"]) simp
qed

lemma mutateData_collection:
  assumes "mutateData cls (JCollection xs c s f) (JCollection ys d s' f') = Inr this'"
  shows "if extend_flag f
         then \<exists>zs. length zs = length ys \<and> this' = JCollection (xs @ zs) d s f
         else this' = JCollection ys d s f"
proof (cases "extend_flag f")
  case True
  with assms obtain t where a: "add_all cls ys (JCollection xs c s f) = Inr t"
    by (auto split: sum.splits)
  from add_all_result [OF a] obtain zs where
    z: "length zs = length ys" "t = JCollection (xs @ zs) (c + int (length ys)) s f"
    by blast
  with assms True a show ?thesis by auto
next
  case False
  with assms show ?thesis by simp
qed


lemma construct_is_instance: "construct cls data options = Inr r \<Longrightarrow> is_instance r"
  by (cases data)
     (auto simp: build_item_def split: sum.splits option.splits jsval.splits prod.splits)

lemma make_instance_is_instance: "make_instance cls item options = Inr r \<Longrightarrow> is_instance r"
  by (auto simp: make_instance_def construct_is_instance split: if_splits)

lemma get_instance: "is_instance x \<Longrightarrow> \<exists>w. get x k = Inr w"
  by (cases x) simp_all

lemma callback_by_item:
  assumes "\<not> isString item" and "get item (pk_key cls) = Inr v" and "get x (pk_key cls) = Inr w"
  shows "getCollectionCallback cls (RefVal item) x = Inr (JBool (strict_eq w v))"
  using assms by (cases item) simp_all

lemma matches_by_item:
  assumes "\<not> isString item" and "get item (pk_key cls) = Inr v" and "get x (pk_key cls) = Inr w"
  shows "matches cls (RefVal item) x = strict_eq w v"
  using callback_by_item [OF assms] by (simp add: matches_def)

lemma callback_total:
  assumes "\<not> isString item" and "get item (pk_key cls) = Inr v" and "\<forall>x\<in>set ys. is_instance x"
  shows "\<forall>x\<in>set ys. \<exists>r. getCollectionCallback cls (RefVal item) x = Inr r"
proof
  fix x assume "x \<in> set ys"
  with assms(3) obtain w where "get x (pk_key cls) = Inr w"
    using get_instance by blast
  from callback_by_item [OF assms(1,2) this]
  show "\<exists>r. getCollectionCallback cls (RefVal item) x = Inr r" by blast
qed

lemma exists_instances:
  assumes "\<not> isString item" and "get item (pk_key cls) = Inr v" and "\<forall>x\<in>set ys. is_instance x"
  shows "exists cls (RefVal item) (JCollection ys c s f)
           = Inr (0 < length (filter (matches cls (RefVal item)) ys))"
proof -
  have "(0 < length (filter (matches cls (RefVal item)) ys))
          = (\<exists>x\<in>set ys. matches cls (RefVal item) x)"
    by (simp add: filter_empty_conv)
  with some_total [OF callback_total [OF assms]] show ?thesis
    by (simp add: exists_def matches_def)
qed

lemma toggle_step:
  assumes str: "\<not> isString item" and key: "get item (pk_key cls) = Inr v" and prim: "is_primitive v"
    and made: "make_instance cls item no_options = Inr inst" "get inst (pk_key cls) = Inr v"
    and ys: "\<forall>x\<in>set ys. is_instance x"
  shows "\<exists>r ys' c'. toggle cls item (RefVal JNull) (JCollection ys c s f)
                       = Inr (r, JCollection ys' c' s f) \<and>
           (\<forall>x\<in>set ys'. is_instance x) \<and>
           length (filter (matches cls (RefVal item)) ys') =
             (if length (filter (matches cls (RefVal item)) ys) = 0 then 1
              else length (filter (matches cls (RefVal item)) ys) - 1)"
proof (cases "length (filter (matches cls (RefVal item)) ys) = 0")
  case True
  have m: "matches cls (RefVal item) inst"
    using matches_by_item [OF str key made(2)] prim by (simp add: strict_eq_def)
  have "toggle cls item (RefVal JNull) (JCollection ys c s f)
          = Inr (inst, JCollection (ys @ [inst]) (c + 1) s f)"
    using True made(1) exists_instances [OF str key ys, of c s f]
    by (simp add: toggle_def add_def)
  moreover have "\<forall>x\<in>set (ys @ [inst]). is_instance x"
    using ys make_instance_is_instance [OF made(1)] by simp
  moreover have "length (filter (matches cls (RefVal item)) (ys @ [inst])) = 1"
    using True m by simp
  ultimately show ?thesis using True by auto
next
  case False
  let ?cb = "getCollectionCallback cls (RefVal item)"
  from False have ex: "\<exists>x\<in>set ys. matches cls (RefVal item) x"
    by (simp add: filter_empty_conv)
  from findIndex_total [OF callback_total [OF str key ys]] ex
  obtain i where i: "findIndex ?cb ys = Inr (Some i)"
    by (auto simp: matches_def)
  from findIndex_Some [OF i] have il: "i < length ys" and im: "matches cls (RefVal item) (ys ! i)"
    by (auto simp: matches_def)
  have "toggle cls item (RefVal JNull) (JCollection ys c s f)
          = Inr (JArr [ys ! i], JCollection (take i ys @ drop (Suc i) ys) (c - 1) s f)"
    using False exists_instances [OF str key ys, of c s f] remove_found [OF i, of c s f]
    by (simp add: toggle_def)
  moreover have "\<forall>x\<in>set (take i ys @ drop (Suc i) ys). is_instance x"
    using ys by (auto dest: in_set_takeD in_set_dropD)
  moreover note filter_remove_nth [OF il, of "matches cls (RefVal item)", OF im]
  ultimately show ?thesis using False by auto
qed

lemma add_preserves:
  assumes "length_le_count coll" and "add cls item opts coll = Inr (r, coll')"
  shows "length_le_count coll'"
proof -
  from assms(1) obtain xs c s f where coll: "coll = JCollection xs c s f" and le: "int (length xs) \<le> c"
    by (cases coll) simp_all
  from add_result [OF assms(2) [unfolded coll]] le show ?thesis by simp
qed

lemma remove_preserves:
  assumes "length_le_count coll" and "remove cls ref coll = Inr (r, coll')"
  shows "length_le_count coll'"
proof -
  from assms(1) obtain xs c s f where coll: "coll = JCollection xs c s f" and le: "int (length xs) \<le> c"
    by (cases coll) simp_all
  show ?thesis
  proof (cases "findIndex (getCollectionCallback cls ref) xs")
    case (Inl e)
    with coll assms(2) show ?thesis by simp
  next
    case (Inr res)
    show ?thesis
    proof (cases res)
      case None
      from remove_missing [OF Inr [unfolded None], of c s f] assms(2) coll
      have "coll' = coll" by simp
      with assms(1) show ?thesis by simp
    next
      case (Some i)
      from findIndex_Some [OF Inr [unfolded Some]] have "i < length xs" by simp
      moreover from remove_found [OF Inr [unfolded Some], of c s f] assms(2) coll
      have "coll' = JCollection (take i xs @ drop (Suc i) xs) (c - 1) s f" by simp
      ultimately show ?thesis using le by simp
    qed
  qed
qed

lemma toggle_preserves:
  assumes "length_le_count coll" and "toggle cls item callback coll = Inr (r, coll')"
  shows "length_le_count coll'"
proof (cases "exists cls (toggle_ref callback item) coll")
  case (Inl e)
  with assms(2) show ?thesis by (simp add: toggle_def)
next
  case (Inr b)
  show ?thesis
  proof (cases b)
    case True
    with Inr assms(2) have "remove cls (toggle_ref callback item) coll = Inr (r, coll')"
      by (simp add: toggle_def)
    with assms(1) show ?thesis by (rule remove_preserves)
  next
    case False
    with Inr assms(2) have "add cls item no_options coll = Inr (r, coll')"
      by (simp add: toggle_def)
    with assms(1) show ?thesis by (rule add_preserves)
  qed
qed

lemma clear_preserves:
  assumes "length_le_count coll" and "clear coll = Inr coll'"
  shows "length_le_count coll'"
proof -
  from assms(1) obtain xs c s f where coll: "coll = JCollection xs c s f" and le: "int (length xs) \<le> c"
    by (cases coll) simp_all
  with assms(2) show ?thesis by auto
qed

lemmas ev = construct.simps build_item_def buildRawItem_def resolve_primaryKey_def pk_key_def
  get_prop_def has_key_def User_def init_field_def STRING_def with_defaults_def opt_isNew_def
  build_value_def buildValidator_def blank_user_def ann_def ann_twin_def no_options_def
  add_def make_instance_def toggle_def exists_def strict_eq_def


text \<open>
  Claim C1. \<^verbatim>\<open>remove(ref)\<close> is to return the removed item itself. On the collection
  holding the one user \<open>ann\<close>, removing by her key \<^verbatim>\<open>'u1'\<close> empties the list and
  takes the count from 1 to 0, but what is returned is the result of \<^verbatim>\<open>splice\<close>: the
  array around the removed item, not the item. (\<open>remove_missing\<close> and
  \<open>remove_found\<close> above are the general behaviour.)
\<close>

theorem remove_returns_array:
  "remove User (RefVal (JStr ''u1'')) (JCollection [ann] 1 collection_states None)
     = Inr (JArr [ann], JCollection [] 0 collection_states None) \<and>
   JArr [ann] \<noteq> ann"
  by (simp add: ev)

text \<open>
  Claim C2, amended. After construction from a sequence the list has one instance per
  element; without a count option the count is the length, and with a count option \<open>k\<close>
  the count is \<open>k\<close>, so that \<^verbatim>\<open>length <= count\<close> holds exactly when \<open>k\<close> is at
  least the number of elements. \<^verbatim>\<open>add\<close>, \<^verbatim>\<open>remove\<close>, \<^verbatim>\<open>toggle\<close> and
  \<^verbatim>\<open>clear\<close> preserve \<^verbatim>\<open>length <= count\<close>. The merge of a fresh collection takes
  over the fresh count: in replace mode with the fresh list, so the invariant of the fresh
  collection carries over; in extend mode with the old list followed by the fresh
  elements, so the invariant holds exactly when the two lengths together are at most the
  fresh count.
\<close>

theorem length_le_count_amended:
  "(construct cls (JArr data) options = Inr this \<longrightarrow>
      (\<exists>xs c. this = JCollection xs c collection_states None \<and> length xs = length data \<and>
         (bo_count options = None \<longrightarrow> c = int (length data) \<and> length_le_count this) \<and>
         (\<forall>k. bo_count options = Some (JNum k) \<longrightarrow>
                c = k \<and> (length_le_count this \<longleftrightarrow> int (length data) \<le> k)))) \<and>
   (length_le_count coll \<longrightarrow>
      (\<forall>r coll'. add cls item opts coll = Inr (r, coll') \<longrightarrow> length_le_count coll') \<and>
      (\<forall>r coll'. remove cls ref coll = Inr (r, coll') \<longrightarrow> length_le_count coll') \<and>
      (\<forall>r coll'. toggle cls item callback coll = Inr (r, coll') \<longrightarrow> length_le_count coll') \<and>
      (\<forall>coll'. clear coll = Inr coll' \<longrightarrow> length_le_count coll')) \<and>
   (mutateData cls (JCollection xs c s f) (JCollection ys d s' f') = Inr merged \<longrightarrow>
      (if extend_flag f
       then length_le_count merged \<longleftrightarrow> int (length xs + length ys) \<le> d
       else length_le_count merged \<longleftrightarrow> length_le_count (JCollection ys d s' f')))"
proof (intro conjI impI)
  assume "construct cls (JArr data) options = Inr this"
  from construct_array [OF this]
  show "\<exists>xs c. this = JCollection xs c collection_states None \<and> length xs = length data \<and>
         (bo_count options = None \<longrightarrow> c = int (length data) \<and> length_le_count this) \<and>
         (\<forall>k. bo_count options = Some (JNum k) \<longrightarrow>
                c = k \<and> (length_le_count this \<longleftrightarrow> int (length data) \<le> k))"
    by auto
next
  assume "length_le_count coll"
  then show "\<forall>r coll'. add cls item opts coll = Inr (r, coll') \<longrightarrow> length_le_count coll'"
    using add_preserves by blast
next
  assume "length_le_count coll"
  then show "\<forall>r coll'. remove cls ref coll = Inr (r, coll') \<longrightarrow> length_le_count coll'"
    using remove_preserves by blast
next
  assume "length_le_count coll"
  then show "\<forall>r coll'. toggle cls item callback coll = Inr (r, coll') \<longrightarrow> length_le_count coll'"
    using toggle_preserves by blast
next
  assume "length_le_count coll"
  then show "\<forall>coll'. clear coll = Inr coll' \<longrightarrow> length_le_count coll'"
    using clear_preserves by blast
next
  assume "mutateData cls (JCollection xs c s f) (JCollection ys d s' f') = Inr merged"
  from mutateData_collection [OF this]
  show "if extend_flag f
        then length_le_count merged \<longleftrightarrow> int (length xs + length ys) \<le> d
        else length_le_count merged \<longleftrightarrow> length_le_count (JCollection ys d s' f')"
    by (auto split: if_splits)
qed

theorem length_le_count_amended_witness:
  "construct User (JArr [JObj [], JObj []]) \<lparr>bo_isNew = None, bo_count = Some (JNum 10)\<rparr>
     = Inr (JCollection [blank_user, blank_user] 10 collection_states None) \<and>
   length_le_count (JCollection [blank_user, blank_user] 10 collection_states None) \<and>
   add User ann no_options (JCollection [blank_user, blank_user] 10 collection_states None)
     = Inr (ann, JCollection [blank_user, blank_user, ann] 11 collection_states None) \<and>
   length_le_count (JCollection [blank_user, blank_user, ann] 11 collection_states None) \<and>
   mutateData User (JCollection [ann] 1 collection_states (Some \<lparr>fo_method = ''GET'', fo_extend = True\<rparr>))
       (JCollection [ann_twin] 10 collection_states None)
     = Inr (JCollection [ann, ann_twin] 10 collection_states (Some \<lparr>fo_method = ''GET'', fo_extend = True\<rparr>)) \<and>
   length_le_count (JCollection [ann, ann_twin] 10 collection_states (Some \<lparr>fo_method = ''GET'', fo_extend = True\<rparr>))"
  using length_le_count_amended [of User "[JObj [], JObj []]"
      "\<lparr>bo_isNew = None, bo_count = Some (JNum 10)\<rparr>"
      "JCollection [blank_user, blank_user] 10 collection_states None"
      "JCollection [blank_user, blank_user] 10 collection_states None"
      ann no_options "RefVal JNull" "RefVal JNull"
      "[ann]" 1 collection_states "Some \<lparr>fo_method = ''GET'', fo_extend = True\<rparr>"
      "[ann_twin]" 10 collection_states None
      "JCollection [ann, ann_twin] 10 collection_states (Some \<lparr>fo_method = ''GET'', fo_extend = True\<rparr>)"]
  by (simp add: ev extend_flag_def)

text \<open>
  Claim C2 as stated fails: two elements built with the count option 1 give a collection of
  length 2 with total count 1.
\<close>

theorem length_le_count_counterexample:
  "construct User (JArr [JObj [], JObj []]) \<lparr>bo_isNew = None, bo_count = Some (JNum 1)\<rparr>
     = Inr (JCollection [blank_user, blank_user] 1 collection_states None) \<and>
   \<not> length_le_count (JCollection [blank_user, blank_user] 1 collection_states None)"
  by (simp add: ev)

text \<open>
  Claim C7, amended. Let the item be no string and carry a primitive primary key that the
  instance added for it carries too, and let the collection hold instances. Then two calls
  of \<^verbatim>\<open>toggle(item)\<close> return, and afterwards \<^verbatim>\<open>exists(item)\<close> answers as before
  the two calls exactly when the collection did not hold two items with that key at the
  start; in particular whenever at most one item has the key.
\<close>

theorem toggle_twice_membership:
  assumes "\<not> isString item" and "get item (pk_key cls) = Inr v" and "is_primitive v"
    and "make_instance cls item no_options = Inr inst" and "get inst (pk_key cls) = Inr v"
    and "\<forall>x\<in>set xs. is_instance x"
  shows "\<exists>r1 this1 r2 this2.
           toggle cls item (RefVal JNull) (JCollection xs c s f) = Inr (r1, this1) \<and>
           toggle cls item (RefVal JNull) this1 = Inr (r2, this2) \<and>
           (exists cls (RefVal item) this2 = exists cls (RefVal item) (JCollection xs c s f)
              \<longleftrightarrow> length (filter (matches cls (RefVal item)) xs) \<noteq> 2)"
proof -
  let ?m = "matches cls (RefVal item)"
  from toggle_step [OF assms(1-5) assms(6), of c s f] obtain r1 ys c1 where
    t1: "toggle cls item (RefVal JNull) (JCollection xs c s f) = Inr (r1, JCollection ys c1 s f)"
    and ys: "\<forall>x\<in>set ys. is_instance x"
    and n1: "length (filter ?m ys) = (if length (filter ?m xs) = 0 then 1 else length (filter ?m xs) - 1)"
    by blast
  from toggle_step [OF assms(1-5) ys, of c1 s f] obtain r2 zs c2 where
    t2: "toggle cls item (RefVal JNull) (JCollection ys c1 s f) = Inr (r2, JCollection zs c2 s f)"
    and zs: "\<forall>x\<in>set zs. is_instance x"
    and n2: "length (filter ?m zs) = (if length (filter ?m ys) = 0 then 1 else length (filter ?m ys) - 1)"
    by blast
  have "exists cls (RefVal item) (JCollection zs c2 s f) = exists cls (RefVal item) (JCollection xs c s f)
          \<longleftrightarrow> length (filter ?m xs) \<noteq> 2"
    unfolding exists_instances [OF assms(1,2) zs] exists_instances [OF assms(1,2) assms(6)]
    using n1 n2 by (auto split: if_splits)
  with t1 t2 show ?thesis by blast
qed

theorem toggle_twice_membership_witness:
  "\<not> isString ann \<and> get ann (pk_key User) = Inr (JStr ''u1'') \<and> is_primitive (JStr ''u1'') \<and>
   make_instance User ann no_options = Inr ann \<and>
   is_instance blank_user \<and> is_instance ann \<and>
   length (filter (matches User (RefVal ann)) [blank_user, ann]) = 1 \<and>
   toggle User ann (RefVal JNull) (JCollection [blank_user, ann] 2 collection_states None)
     = Inr (JArr [ann], JCollection [blank_user] 1 collection_states None) \<and>
   toggle User ann (RefVal JNull) (JCollection [blank_user] 1 collection_states None)
     = Inr (ann, JCollection [blank_user, ann] 2 collection_states None) \<and>
   exists User (RefVal ann) (JCollection [blank_user, ann] 2 collection_states None) = Inr True"
  using toggle_twice_membership [of ann User "JStr ''u1''" ann "[blank_user, ann]" 2
      collection_states None]
  by (simp add: ev matches_def)

text \<open>
  Claim C7 as stated fails on a collection with two items of the same key: each call removes
  one of them, so the key is present before the two calls and absent after.
\<close>

theorem toggle_twice_counterexample:
  "toggle User ann (RefVal JNull) (JCollection [ann, ann_twin] 2 collection_states None)
     = Inr (JArr [ann], JCollection [ann_twin] 1 collection_states None) \<and>
   toggle User ann (RefVal JNull) (JCollection [ann_twin] 1 collection_states None)
     = Inr (JArr [ann_twin], JCollection [] 0 collection_states None) \<and>
   exists User (RefVal ann) (JCollection [ann, ann_twin] 2 collection_states None) = Inr True \<and>
   exists User (RefVal ann) (JCollection [] 0 collection_states None) = Inr False"
  by (simp add: ev)


subsection \<open>Validation\<close>

lemma has_key_update: "has_key (AList.update g x fs) k = (k = g \<or> has_key fs k)"
  by (simp add: has_key_def update_conv')

lemma set_checked_frame:
  assumes "set_checked g this = Inr this'"
  shows "has this' k = has this k \<and> states_of this' = states_of this \<and> get this' k = get this k"
  using assms by (cases this) (auto split: if_splits)

lemma set_field_frame:
  assumes "has this g = Inr True"
  shows "has (set_field g x this) k = has this k \<and> states_of (set_field g x this) = states_of this"
  using assms by (cases this) (auto simp: has_key_update)

lemma direct_step_frame:
  assumes "direct_step cls g errors this = (r, this')"
  shows "has this' k = has this k \<and> states_of this' = states_of this"
  using assms set_checked_frame [of g this]
  by (auto simp: direct_step_def split: sum.splits bool.splits if_splits)

lemma validate_one_frame:
  assumes "validate_one rec g errors this = (r, this')" and "has this g = Inr True"
  shows "has this' k = has this k \<and> states_of this' = states_of this"
  using assms set_field_frame [OF assms(2)]
  by (auto simp: validate_one_def split: sum.splits if_splits prod.splits)

lemma validate_many_frame:
  assumes "validate_many rec g errors this = (r, this')" and "has this g = Inr True"
  shows "has this' k = has this k \<and> states_of this' = states_of this"
  using assms set_field_frame [OF assms(2)]
  by (auto simp: validate_many_def split: sum.splits jsval.splits prod.splits)

lemma nested_step_frame:
  assumes "nested_step cls g b rec errors this = (r, this')"
  shows "has this' k = has this k \<and> states_of this' = states_of this"
proof (cases "has this g")
  case (Inl e)
  with assms show ?thesis by (simp add: nested_step_def)
next
  case (Inr own)
  show ?thesis
  proof (cases own)
    case False
    with Inr assms show ?thesis by (simp add: nested_step_def)
  next
    case True
    show ?thesis
    proof (cases "set_checked g this")
      case (Inl e)
      with Inr True assms show ?thesis by (simp add: nested_step_def)
    next
      case this1: (Inr this1)
      note f1 = set_checked_frame [OF this1]
      obtain r2 this2 where d: "direct_step cls g None this1 = (r2, this2)"
        by (cases "direct_step cls g None this1")
      note f2 = direct_step_frame [OF d]
      have own2: "has this2 g = Inr True"
        using f1 f2 Inr True by simp
      have base: "has this2 k = has this k \<and> states_of this2 = states_of this"
        using f1 f2 by simp
      show ?thesis
      proof (cases r2)
        case (Inl e)
        with Inr True this1 d assms base show ?thesis by (simp add: nested_step_def)
      next
        case own: (Inr own)
        from Inr True this1 d own assms
        consider "this' = this2"
          | rec' errors1 where "validate_one rec' g errors1 this2 = (r, this')"
          | rec' errors1 where "validate_many rec' g errors1 this2 = (r, this')"
          by (auto simp: nested_step_def Let_def split: if_splits option.splits association.splits)
        then show ?thesis
        proof cases
          case 1
          with base show ?thesis by simp
        next
          case 2
          from validate_one_frame [OF 2 own2] base show ?thesis by simp
        next
          case 3
          from validate_many_frame [OF 3 own2] base show ?thesis by simp
        qed
      qed
    qed
  qed
qed

lemma validation_loop_frame:
  "validation_loop cls fl errors this = (r, this') \<Longrightarrow>
     has this' k = has this k \<and> states_of this' = states_of this"
proof (induction fl arbitrary: errors this)
  case Nil
  then show ?case by simp
next
  case (Cons sel fl)
  show ?case
  proof (cases sel)
    case (Direct g)
    obtain r1 this1 where d: "direct_step cls g errors this = (r1, this1)"
      by (cases "direct_step cls g errors this")
    note f = direct_step_frame [OF d, of k]
    show ?thesis
    proof (cases r1)
      case (Inl e)
      with Cons.prems Direct d f show ?thesis by simp
    next
      case (Inr errors')
      with Cons.prems Direct d have "validation_loop cls fl errors' this1 = (r, this')" by simp
      from Cons.IH [OF this] f show ?thesis by simp
    qed
  next
    case (Nested g arg)
    let ?rec = "\<lambda>M sub. case arg of FieldList fl \<Rightarrow> validation_loop M fl None sub
                         | _ \<Rightarrow> (Inl not_an_array, sub)"
    obtain r1 this1 where d: "nested_step cls g (arg \<noteq> NoList) ?rec errors this = (r1, this1)"
      by (cases "nested_step cls g (arg \<noteq> NoList) ?rec errors this")
    note f = nested_step_frame [OF d, of k]
    show ?thesis
    proof (cases r1)
      case (Inl e)
      with Cons.prems Nested d f show ?thesis by simp
    next
      case (Inr errors')
      with Cons.prems Nested d have "validation_loop cls fl errors' this1 = (r, this')" by simp
      from Cons.IH [OF this] f show ?thesis by simp
    qed
  next
    case Malformed
    with Cons.prems show ?thesis by simp
  qed
qed


lemma mergeErrors_same: "has_not_found f (mergeErrors errors f (Some NOT_FOUND))"
  by (simp add: has_not_found_def mergeErrors_def update_conv')

lemma mergeErrors_other:
  "g \<noteq> f \<Longrightarrow> has_not_found f errors \<Longrightarrow> has_not_found f (mergeErrors errors g e)"
  by (auto simp: has_not_found_def mergeErrors_def update_conv' split: option.splits)

lemma direct_step_not_found:
  assumes "has this f = Inr False"
  shows "direct_step cls f errors this = (Inr (mergeErrors errors f (Some NOT_FOUND)), this)"
  using assms by (simp add: direct_step_def)

lemma direct_step_other:
  assumes "direct_step cls g errors this = (Inr errors', this')" and "g \<noteq> f"
    and "has_not_found f errors"
  shows "has_not_found f errors'"
  using assms mergeErrors_other [OF assms(2,3)]
  by (auto simp: direct_step_def split: sum.splits bool.splits if_splits)

lemma validate_items_other:
  "validate_items rec g xs errors = (Inr errors', xs') \<Longrightarrow> g \<noteq> f \<Longrightarrow>
     has_not_found f errors \<Longrightarrow> has_not_found f errors'"
proof (induction xs arbitrary: errors xs')
  case Nil
  then show ?case by simp
next
  case (Cons x xs)
  from Cons.prems(1) obtain sub x' rest' where
    "validate_items rec g xs (mergeErrors errors g (map_option Errors sub)) = (Inr errors', rest')"
    by (auto split: if_splits prod.splits sum.splits)
  from Cons.IH [OF this Cons.prems(2) mergeErrors_other [OF Cons.prems(2,3)]]
  show ?case .
qed

lemma validate_one_other:
  assumes "validate_one rec g errors this = (Inr errors', this')" and "g \<noteq> f"
    and "has_not_found f errors"
  shows "has_not_found f errors'"
  using assms mergeErrors_other [OF assms(2,3)]
  by (auto simp: validate_one_def split: sum.splits if_splits prod.splits)

lemma validate_many_other:
  assumes "validate_many rec g errors this = (Inr errors', this')" and "g \<noteq> f"
    and "has_not_found f errors"
  shows "has_not_found f errors'"
  using assms validate_items_other [of rec g _ errors errors' _ f]
  by (auto simp: validate_many_def split: sum.splits jsval.splits prod.splits)

lemma nested_step_not_found:
  assumes "has this f = Inr False"
  shows "nested_step cls f b rec errors this = (Inr (mergeErrors errors f (Some NOT_FOUND)), this)"
  using assms by (simp add: nested_step_def)

lemma nested_step_other:
  assumes "nested_step cls g b rec errors this = (Inr errors', this')" and "g \<noteq> f"
    and "has_not_found f errors"
  shows "has_not_found f errors'"
proof -
  note m = mergeErrors_other [OF assms(2,3)]
  from assms(1)
  consider "\<exists>e. errors' = mergeErrors errors g e"
    | rec' e this2 where "validate_one rec' g (mergeErrors errors g e) this2 = (Inr errors', this')"
    | rec' e this2 where "validate_many rec' g (mergeErrors errors g e) this2 = (Inr errors', this')"
    by (auto simp: nested_step_def Let_def
        split: sum.splits bool.splits prod.splits if_splits option.splits association.splits)
  then show ?thesis
  proof cases
    case 1
    with m show ?thesis by auto
  next
    case 2
    from validate_one_other [OF 2 assms(2) m] show ?thesis .
  next
    case 3
    from validate_many_other [OF 3 assms(2) m] show ?thesis .
  qed
qed

lemma validation_loop_not_found:
  "has this f = Inr False \<Longrightarrow> Direct f \<in> set fl \<or> has_not_found f errors \<Longrightarrow>
     validation_loop cls fl errors this = (Inr errors', this') \<Longrightarrow> has_not_found f errors'"
proof (induction fl arbitrary: errors this)
  case Nil
  then show ?case by simp
next
  case (Cons sel fl)
  show ?case
  proof (cases sel)
    case (Direct g)
    obtain r1 this1 where d: "direct_step cls g errors this = (r1, this1)"
      by (cases "direct_step cls g errors this")
    with Cons.prems(3) Direct obtain errors1 where
      r1: "r1 = Inr errors1" and rest: "validation_loop cls fl errors1 this1 = (Inr errors', this')"
      by (cases r1) auto
    from direct_step_frame [OF d, of f] Cons.prems(1) have h: "has this1 f = Inr False" by simp
    have "Direct f \<in> set fl \<or> has_not_found f errors1"
    proof (cases "g = f")
      case True
      with d r1 direct_step_not_found [OF Cons.prems(1), of cls errors] mergeErrors_same
      show ?thesis by auto
    next
      case False
      with Cons.prems(2) Direct direct_step_other [OF d [unfolded r1] False]
      show ?thesis by auto
    qed
    from Cons.IH [OF h this rest] show ?thesis .
  next
    case (Nested g arg)
    let ?rec = "\<lambda>M sub. case arg of FieldList fl \<Rightarrow> validation_loop M fl None sub
                         | _ \<Rightarrow> (Inl not_an_array, sub)"
    obtain r1 this1 where d: "nested_step cls g (arg \<noteq> NoList) ?rec errors this = (r1, this1)"
      by (cases "nested_step cls g (arg \<noteq> NoList) ?rec errors this")
    with Cons.prems(3) Nested obtain errors1 where
      r1: "r1 = Inr errors1" and rest: "validation_loop cls fl errors1 this1 = (Inr errors', this')"
      by (cases r1) auto
    from nested_step_frame [OF d, of f] Cons.prems(1) have h: "has this1 f = Inr False" by simp
    have "Direct f \<in> set fl \<or> has_not_found f errors1"
    proof (cases "g = f")
      case True
      with d r1 nested_step_not_found [OF Cons.prems(1), of cls "arg \<noteq> NoList" ?rec errors]
        mergeErrors_same
      show ?thesis by auto
    next
      case False
      with Cons.prems(2) Nested nested_step_other [OF d [unfolded r1] False]
      show ?thesis by auto
    qed
    from Cons.IH [OF h this rest] show ?thesis .
  next
    case Malformed
    with Cons.prems show ?thesis by simp
  qed
qed

lemmas ev_valid = valid_def getValidationErrors_def direct_step_def nested_step_def
  call_isValid_def validator_isValid_def mergeErrors_def js_and_def js_or_def js_not_def
  reset_save_def item_states_def not_an_array_def


text \<open>
  Claim C8. Let \<open>f\<close> be no own property of the instance. The round of the validation
  loop for the field name \<open>f\<close> puts \<^verbatim>\<open>{ error: 'NOT_FOUND' }\<close> under \<open>f\<close> into
  the error object and leaves the instance, hence every \<^verbatim>\<open>checked\<close> flag, as it is;
  validating \<open>f\<close> alone returns exactly that entry; and whenever \<open>f\<close> is among the
  elements of a list whose validation returns, the returned error object maps \<open>f\<close> to
  \<^verbatim>\<open>NOT_FOUND\<close>.
\<close>

theorem direct_field_not_found:
  assumes "has this f = Inr False"
  shows "direct_step cls f errors this = (Inr (mergeErrors errors f (Some NOT_FOUND)), this) \<and>
         has_not_found f (mergeErrors errors f (Some NOT_FOUND)) \<and>
         getValidationErrors cls (FieldList [Direct f]) this = (Inr (Some [(f, NOT_FOUND)]), this) \<and>
         (\<forall>fl errors' this'. Direct f \<in> set fl \<longrightarrow>
            getValidationErrors cls (FieldList fl) this = (Inr errors', this') \<longrightarrow>
            has_not_found f errors')"
proof (intro conjI allI impI)
  show "direct_step cls f errors this = (Inr (mergeErrors errors f (Some NOT_FOUND)), this)"
    by (rule direct_step_not_found [OF assms])
  show "has_not_found f (mergeErrors errors f (Some NOT_FOUND))"
    by (rule mergeErrors_same)
  show "getValidationErrors cls (FieldList [Direct f]) this = (Inr (Some [(f, NOT_FOUND)]), this)"
    by (simp add: getValidationErrors_def direct_step_not_found [OF assms] mergeErrors_def)
next
  fix fl errors' this'
  assume "Direct f \<in> set fl"
    and "getValidationErrors cls (FieldList fl) this = (Inr errors', this')"
  then show "has_not_found f errors'"
    using validation_loop_not_found [OF assms, of fl None cls errors' this']
    by (simp add: getValidationErrors_def)
qed

theorem direct_field_not_found_witness:
  "has ann ''email'' = Inr False \<and>
   getValidationErrors User (FieldList [Direct ''email'']) ann
     = (Inr (Some [(''email'', NOT_FOUND)]), ann) \<and>
   getValidationErrors User (FieldList [Direct ''email'', Direct ''name'']) ann
     = (Inr (Some [(''email'', NOT_FOUND)]),
        JEntity [(''id'', JStr ''u1''), (''name'', JStr ''Ann'')] True
          [(''id'', True), (''name'', True)] item_states None) \<and>
   has_not_found ''email'' (Some [(''email'', NOT_FOUND)])"
  using direct_field_not_found [of ann "''email''" User None]
  by (simp add: ev ev_valid has_not_found_def)

text \<open>
  Claim C9. On an instance with state flags, whatever the argument and the outcome of
  \<^verbatim>\<open>valid\<close> (a boolean or a thrown error): the three save flags are set to
  \<^verbatim>\<open>false\<close> first, the validation runs on the instance so changed, and afterwards the
  flags are the old ones with \<^verbatim>\<open>saveInProgress\<close>, \<^verbatim>\<open>saveSuccess\<close> and
  \<^verbatim>\<open>saveFailure\<close> all \<^verbatim>\<open>false\<close>.
\<close>

theorem valid_resets_save_state:
  assumes "valid cls fieldlist this = (r, hook, this')" and "states_of this = Some s"
  shows "\<exists>this1 r1. reset_save_states this = Inr this1 \<and> states_of this1 = Some (reset_save s) \<and>
           getValidationErrors cls fieldlist this1 = (r1, this') \<and>
           states_of this' = Some (reset_save s) \<and>
           saveInProgress (reset_save s) = Some False \<and>
           saveSuccess (reset_save s) = Some False \<and>
           saveFailure (reset_save s) = Some False"
proof -
  from assms(2) obtain this1 where
    t1: "reset_save_states this = Inr this1" "states_of this1 = Some (reset_save s)"
    by (cases this) auto
  obtain r1 this2 where g: "getValidationErrors cls fieldlist this1 = (r1, this2)"
    by (cases "getValidationErrors cls fieldlist this1")
  from assms(1) t1(1) g have eq: "this2 = this'"
    by (auto simp: valid_def split: sum.splits)
  have "states_of this2 = states_of this1"
  proof (cases fieldlist)
    case (FieldList fl)
    with g have "validation_loop cls fl None this1 = (r1, this2)"
      by (simp add: getValidationErrors_def)
    from validation_loop_frame [OF this] show ?thesis by simp
  qed (use g in \<open>simp_all add: getValidationErrors_def\<close>)
  with t1 g eq show ?thesis by (simp add: reset_save_def)
qed

theorem valid_resets_save_state_witness:
  "states_of ann_saved = Some (item_states\<lparr>saveSuccess := Some True\<rparr>) \<and>
   valid User (FieldList [Direct ''name'']) ann_saved =
     (Inr True, None,
      JEntity [(''id'', JStr ''u1''), (''name'', JStr ''Ann'')] False
        [(''id'', True), (''name'', True)] item_states None) \<and>
   valid User NotArray ann_saved =
     (Inl not_an_array, None,
      JEntity [(''id'', JStr ''u1''), (''name'', JStr ''Ann'')] False
        [(''id'', True), (''name'', False)] item_states None)"
  using valid_resets_save_state [of User "FieldList [Direct ''name'']" ann_saved "Inr True" None
      "JEntity [(''id'', JStr ''u1''), (''name'', JStr ''Ann'')] False
        [(''id'', True), (''name'', True)] item_states None"
      "item_states\<lparr>saveSuccess := Some True\<rparr>"]
  by (simp add: ev ev_valid ann_saved_def)


subsection \<open>The response envelope\<close>

text \<open>
  Claim C6, amended. For every parsed response body other than \<^verbatim>\<open>null\<close> (and
  \<^verbatim>\<open>undefined\<close>, which no JSON text gives): the body counts as a collection envelope
  exactly when it owns both the count key and the data key of the class. Then the fresh
  instance is constructed from the value under the data key with \<^verbatim>\<open>isNew: false\<close> and
  the value under the count key as \<^verbatim>\<open>count\<close>, so from an array and a number comes a
  collection of that total count; otherwise it is constructed from the body itself with
  \<^verbatim>\<open>isNew: false\<close> and no count.
\<close>

theorem envelope_rule:
  assumes "serverData \<noteq> JNull" and "serverData \<noteq> JUndefined"
  shows "\<exists>hasCount hasData.
           has serverData (collectionCountKey cls) = Inr hasCount \<and>
           has serverData (collectionDataKey cls) = Inr hasData \<and>
           hasMatchedCollectionPattern cls serverData = Inr (hasCount \<and> hasData) \<and>
           (hasCount \<and> hasData \<longrightarrow>
              (\<exists>rows count.
                 get serverData (collectionDataKey cls) = Inr rows \<and>
                 get serverData (collectionCountKey cls) = Inr count \<and>
                 fetch_data cls serverData
                   = Inr (rows, \<lparr>bo_isNew = Some False, bo_count = Some count\<rparr>) \<and>
                 formattedData cls serverData
                   = construct cls rows \<lparr>bo_isNew = Some False, bo_count = Some count\<rparr> \<and>
                 (\<forall>data n this. rows = JArr data \<and> count = JNum n \<and>
                      formattedData cls serverData = Inr this \<longrightarrow>
                      (\<exists>xs. this = JCollection xs n collection_states None \<and>
                            length xs = length data)))) \<and>
           (\<not> (hasCount \<and> hasData) \<longrightarrow>
              fetch_data cls serverData
                = Inr (serverData, \<lparr>bo_isNew = Some False, bo_count = None\<rparr>) \<and>
              formattedData cls serverData
                = construct cls serverData \<lparr>bo_isNew = Some False, bo_count = None\<rparr>)"
proof -
  have hb: "\<exists>b. has serverData k = Inr b" for k
    using assms by (cases serverData) auto
  have gw: "\<exists>w. get serverData k = Inr w" for k
    using assms by (cases serverData) simp_all
  from hb obtain hasCount where hc: "has serverData (collectionCountKey cls) = Inr hasCount"
    by blast
  from hb obtain hasData where hd: "has serverData (collectionDataKey cls) = Inr hasData"
    by blast
  from gw obtain rows where gr: "get serverData (collectionDataKey cls) = Inr rows"
    by blast
  from gw obtain count where gc: "get serverData (collectionCountKey cls) = Inr count"
    by blast
  have m: "hasMatchedCollectionPattern cls serverData = Inr (hasCount \<and> hasData)"
    using hc hd by (cases hasCount) (simp_all add: hasMatchedCollectionPattern_def)
  show ?thesis
  proof (cases "hasCount \<and> hasData")
    case True
    have fd: "fetch_data cls serverData
                = Inr (rows, \<lparr>bo_isNew = Some False, bo_count = Some count\<rparr>)"
      using m gr gc True by (simp add: fetch_data_def)
    then have fo: "formattedData cls serverData
                = construct cls rows \<lparr>bo_isNew = Some False, bo_count = Some count\<rparr>"
      by (simp add: formattedData_def)
    have arr: "\<forall>data n this. rows = JArr data \<and> count = JNum n \<and>
                 formattedData cls serverData = Inr this \<longrightarrow>
                 (\<exists>xs. this = JCollection xs n collection_states None \<and> length xs = length data)"
    proof (intro allI impI)
      fix data n this
      assume a: "rows = JArr data \<and> count = JNum n \<and> formattedData cls serverData = Inr this"
      with fo have "construct cls (JArr data) \<lparr>bo_isNew = Some False, bo_count = Some (JNum n)\<rparr>
                      = Inr this"
        by simp
      from construct_array [OF this]
      show "\<exists>xs. this = JCollection xs n collection_states None \<and> length xs = length data"
        by auto
    qed
    from hc hd m True gr gc fd fo arr show ?thesis by blast
  next
    case False
    have fd: "fetch_data cls serverData
                = Inr (serverData, \<lparr>bo_isNew = Some False, bo_count = None\<rparr>)"
      using m False by (simp add: fetch_data_def)
    then have fo: "formattedData cls serverData
                = construct cls serverData \<lparr>bo_isNew = Some False, bo_count = None\<rparr>"
      by (simp add: formattedData_def)
    from hc hd m False fd fo show ?thesis by blast
  qed
qed

theorem envelope_rule_witness:
  "JObj [(''rows'', JArr [JObj [(''id'', JStr ''a'')], JObj [(''id'', JStr ''b'')]]),
         (''count'', JNum 10)] \<noteq> JNull \<and>
   JObj [(''rows'', JArr [JObj [(''id'', JStr ''a'')], JObj [(''id'', JStr ''b'')]]),
         (''count'', JNum 10)] \<noteq> JUndefined \<and>
   hasMatchedCollectionPattern User
     (JObj [(''rows'', JArr [JObj [(''id'', JStr ''a'')], JObj [(''id'', JStr ''b'')]]),
            (''count'', JNum 10)]) = Inr True \<and>
   formattedData User
     (JObj [(''rows'', JArr [JObj [(''id'', JStr ''a'')], JObj [(''id'', JStr ''b'')]]),
            (''count'', JNum 10)])
     = Inr (JCollection
         [JEntity [(''id'', JStr ''a'')] False [(''id'', True), (''name'', False)] item_states None,
          JEntity [(''id'', JStr ''b'')] False [(''id'', True), (''name'', False)] item_states None]
         10 collection_states None) \<and>
   hasMatchedCollectionPattern User (JObj [(''rows'', JArr [])]) = Inr False \<and>
   formattedData User (JArr [JObj [(''id'', JStr ''a'')]])
     = Inr (JCollection
         [JEntity [(''id'', JStr ''a'')] False [(''id'', True), (''name'', False)] item_states None]
         1 collection_states None)"
  using envelope_rule [of "JObj [(''rows'', JArr [JObj [(''id'', JStr ''a'')], JObj [(''id'', JStr ''b'')]]),
         (''count'', JNum 10)]" User]
  by (simp add: ev hasMatchedCollectionPattern_def formattedData_def fetch_data_def index_of_key_def
      nat_to_string.simps [of 0] item_states_def)

text \<open>
  Claim C6 as stated fails on the body \<^verbatim>\<open>null\<close>: the envelope test itself throws, and
  nothing is constructed from the body.
\<close>

theorem envelope_rule_counterexample:
  "hasMatchedCollectionPattern User JNull = Inl TypeError \<and>
   formattedData User JNull = Inl TypeError \<and>
   construct User JNull \<lparr>bo_isNew = Some False, bo_count = None\<rparr> = Inr JBare"
  by (simp add: hasMatchedCollectionPattern_def formattedData_def fetch_data_def)


text \<open>
  Two runs of \<^verbatim>\<open>fetch\<close> on a collection. A \<^verbatim>\<open>GET\<close> answered with
  \<^verbatim>\<open>{ rows: [2 records], count: 10 }\<close> leaves a collection of length 2 and total count
  10.
\<close>

lemma fetch_envelope_scenario:
  "fetch User \<lparr>fo_method = ''GET'', fo_extend = False\<rparr>
     (Answered (JObj [(''rows'', JArr [JObj [(''id'', JStr ''a'')], JObj [(''id'', JStr ''b'')]]),
                      (''count'', JNum 10)]))
     (JCollection [] 0 collection_states None)
   = (None,
      JCollection
        [JEntity [(''id'', JStr ''a'')] False [(''id'', True), (''name'', False)] item_states None,
         JEntity [(''id'', JStr ''b'')] False [(''id'', True), (''name'', False)] item_states None]
        10
        (collection_states\<lparr>fetchSuccessOnce := True, fetchSuccess := True\<rparr>)
        (Some \<lparr>fo_method = ''GET'', fo_extend = False\<rparr>))"
  by (simp add: ev fetch_def hasMatchedCollectionPattern_def formattedData_def fetch_data_def
      begin_states_def success_states_def extend_flag_def collection_states_def)

text \<open>
  A \<^verbatim>\<open>GET\<close> in extend mode answered with a bare array of one record appends the record
  to the two items already there and takes over the count 1 of the fresh collection.
\<close>

lemma fetch_extend_scenario:
  "fetch User \<lparr>fo_method = ''GET'', fo_extend = True\<rparr>
     (Answered (JArr [JObj [(''id'', JStr ''c'')]]))
     (JCollection [ann, ann_twin] 2 collection_states None)
   = (None,
      JCollection
        [ann, ann_twin,
         JEntity [(''id'', JStr ''c'')] False [(''id'', True), (''name'', False)] item_states None]
        1
        (collection_states\<lparr>fetchSuccessOnce := True, fetchSuccess := True\<rparr>)
        (Some \<lparr>fo_method = ''GET'', fo_extend = True\<rparr>))"
  by (simp add: ev fetch_def hasMatchedCollectionPattern_def formattedData_def fetch_data_def
      begin_states_def success_states_def extend_flag_def collection_states_def index_of_key_def
      nat_to_string.simps [of 0])

subsection \<open>Serialization\<close>

lemma update_fresh: "k \<notin> fst ` set acc \<Longrightarrow> AList.update k x acc = acc @ [(k, x)]"
  by (induction acc) auto

lemma save_loop_result:
  assumes "this = JEntity fs n v s f"
  shows "save_loop cls options this vs acc = Inr out \<Longrightarrow> distinct (map fst vs) \<Longrightarrow>
     fst ` set vs \<inter> fst ` set acc = {} \<Longrightarrow>
     map fst out = map fst acc @ map fst (filter (serialized_field cls options this) vs) \<and>
     (\<forall>k\<in>fst ` set vs. \<forall>saved. map_of out k = Some saved \<longrightarrow>
        (\<exists>fieldconf. map_of (schema cls) k = Some fieldconf \<and>
           t_beforeSave (fc_type fieldconf) (get_prop fs k) options = Inr saved)) \<and>
     (\<forall>k. k \<notin> fst ` set vs \<longrightarrow> map_of out k = map_of acc k)"
proof (induction vs arbitrary: acc)
  case Nil
  then show ?case by simp
next
  case (Cons entry vs)
  obtain k checked where entry: "entry = (k, checked)" by (cases entry)
  from Cons.prems(2) entry have dist: "distinct (map fst vs)" and knot: "k \<notin> fst ` set vs"
    by auto
  from Cons.prems(3) entry have kacc: "k \<notin> fst ` set acc" by auto
  have g: "get this k = Inr (get_prop fs k)" using assms by simp
  show ?case
  proof (cases "serialized_field cls options this (k, checked)")
    case False
    with Cons.prems(1) entry g have rest: "save_loop cls options this vs acc = Inr out"
      by (auto simp: serialized_field_def split: sum.splits if_splits bool.splits)
    from Cons.prems(3) have "fst ` set vs \<inter> fst ` set acc = {}" by auto
    from Cons.IH [OF rest dist this] False entry knot kacc show ?thesis
      by (auto simp: map_of_eq_None_iff [symmetric] simp del: map_of_eq_None_iff)
  next
    case True
    with Cons.prems(1) entry g obtain fieldconf saved where
      fc: "map_of (schema cls) k = Some fieldconf"
      and sv: "t_beforeSave (fc_type fieldconf) (get_prop fs k) options = Inr saved"
      and rest: "save_loop cls options this vs (AList.update k saved acc) = Inr out"
      by (auto simp: serialized_field_def split: sum.splits if_splits bool.splits option.splits)
    have upd: "AList.update k saved acc = acc @ [(k, saved)]"
      using kacc by (rule update_fresh)
    from Cons.prems(3) knot have "fst ` set vs \<inter> fst ` set (acc @ [(k, saved)]) = {}" by auto
    from Cons.IH [OF rest [unfolded upd] dist this] True entry knot kacc fc sv show ?thesis
      by (auto simp: map_of_eq_None_iff [symmetric] map_add_def
          simp del: map_of_eq_None_iff split: option.splits)
  qed
qed

lemma save_loop_returns:
  assumes "this = JEntity fs n v s f"
  shows "(\<forall>k\<in>fst ` set vs. \<exists>fieldconf saved. map_of (schema cls) k = Some fieldconf \<and>
            t_beforeSave (fc_type fieldconf) (get_prop fs k) options = Inr saved) \<Longrightarrow>
         \<exists>out. save_loop cls options this vs acc = Inr out"
proof (induction vs arbitrary: acc)
  case Nil
  then show ?case by simp
next
  case (Cons entry vs)
  obtain k checked where entry: "entry = (k, checked)" by (cases entry)
  from Cons.prems entry obtain fieldconf saved where
    fc: "map_of (schema cls) k = Some fieldconf"
    and sv: "t_beforeSave (fc_type fieldconf) (get_prop fs k) options = Inr saved"
    by auto
  from Cons.prems have "\<forall>k\<in>fst ` set vs. \<exists>fieldconf saved. map_of (schema cls) k = Some fieldconf \<and>
            t_beforeSave (fc_type fieldconf) (get_prop fs k) options = Inr saved"
    by simp
  from Cons.IH [OF this] entry fc sv assms show ?case
    by (auto simp: call_isValid_def split: bool.splits)
qed

text \<open>
  Claim C5. For a single item whose validator table has distinct field names:
  \<^verbatim>\<open>_beforeSaveItem\<close> returns when every field of the table is in the schema and
  \<^verbatim>\<open>beforeSave\<close> of its type returns on the field's value; and whenever it returns,
  the fields of the output are, in order, the fields of the validator table that pass the
  condition (with \<^verbatim>\<open>removeInvalid\<close>: checked and currently valid; without: all of
  them), each with the result of \<^verbatim>\<open>beforeSave\<close> of its type on the field's current
  value.
\<close>

theorem beforeSaveItem_fields:
  assumes "distinct (map fst v)"
  shows
    "((\<forall>k\<in>fst ` set v. \<exists>fieldconf saved. map_of (schema cls) k = Some fieldconf \<and>
          t_beforeSave (fc_type fieldconf) (get_prop fs k) options = Inr saved) \<longrightarrow>
        (\<exists>out. beforeSaveItem cls options (JEntity fs n v s f) = Inr out)) \<and>
     (\<forall>out. beforeSaveItem cls options (JEntity fs n v s f) = Inr out \<longrightarrow>
        (\<exists>newItem. out = JObj newItem \<and>
           map fst newItem
             = map fst (filter (serialized_field cls options (JEntity fs n v s f)) v) \<and>
           (\<not> removeInvalid options \<longrightarrow> map fst newItem = map fst v) \<and>
           (\<forall>k saved. map_of newItem k = Some saved \<longrightarrow>
              (\<exists>fieldconf. map_of (schema cls) k = Some fieldconf \<and>
                 t_beforeSave (fc_type fieldconf) (get_prop fs k) options = Inr saved))))"
proof (intro conjI impI allI)
  assume "\<forall>k\<in>fst ` set v. \<exists>fieldconf saved. map_of (schema cls) k = Some fieldconf \<and>
          t_beforeSave (fc_type fieldconf) (get_prop fs k) options = Inr saved"
  from save_loop_returns [OF refl this, of n v s f "[]"]
  show "\<exists>out. beforeSaveItem cls options (JEntity fs n v s f) = Inr out"
    by auto
next
  fix out
  assume "beforeSaveItem cls options (JEntity fs n v s f) = Inr out"
  then obtain newItem where out: "out = JObj newItem"
    and sl: "save_loop cls options (JEntity fs n v s f) v [] = Inr newItem"
    by (auto split: sum.splits)
  have r: "map fst newItem
               = map fst (filter (serialized_field cls options (JEntity fs n v s f)) v) \<and>
     (\<forall>k\<in>fst ` set v. \<forall>saved. map_of newItem k = Some saved \<longrightarrow>
        (\<exists>fieldconf. map_of (schema cls) k = Some fieldconf \<and>
           t_beforeSave (fc_type fieldconf) (get_prop fs k) options = Inr saved)) \<and>
     (\<forall>k. k \<notin> fst ` set v \<longrightarrow> map_of newItem k = None)"
    using save_loop_result [OF refl sl assms] by simp
  have keys: "map fst newItem = map fst (filter (serialized_field cls options (JEntity fs n v s f)) v)"
    using r by simp
  have all: "\<not> removeInvalid options \<longrightarrow> map fst newItem = map fst v"
    using keys by (auto simp: serialized_field_def intro!: arg_cong [where f = "map fst"] filter_True)
  have vals: "\<forall>k saved. map_of newItem k = Some saved \<longrightarrow>
              (\<exists>fieldconf. map_of (schema cls) k = Some fieldconf \<and>
                 t_beforeSave (fc_type fieldconf) (get_prop fs k) options = Inr saved)"
  proof (intro allI impI)
    fix k saved assume m: "map_of newItem k = Some saved"
    then have "k \<in> fst ` set v"
      using r by (cases "k \<in> fst ` set v") simp_all
    with r m show "\<exists>fieldconf. map_of (schema cls) k = Some fieldconf \<and>
                 t_beforeSave (fc_type fieldconf) (get_prop fs k) options = Inr saved"
      by blast
  qed
  from out keys all vals
  show "\<exists>newItem. out = JObj newItem \<and>
           map fst newItem
             = map fst (filter (serialized_field cls options (JEntity fs n v s f)) v) \<and>
           (\<not> removeInvalid options \<longrightarrow> map fst newItem = map fst v) \<and>
           (\<forall>k saved. map_of newItem k = Some saved \<longrightarrow>
              (\<exists>fieldconf. map_of (schema cls) k = Some fieldconf \<and>
                 t_beforeSave (fc_type fieldconf) (get_prop fs k) options = Inr saved))"
    by blast
qed

theorem beforeSaveItem_fields_witness:
  "distinct (map fst [(''id'', True), (''name'', False)]) \<and>
   beforeSaveItem User \<lparr>removeInvalid = True\<rparr> ann = Inr (JObj [(''id'', JStr ''u1'')]) \<and>
   beforeSaveItem User \<lparr>removeInvalid = False\<rparr> ann
     = Inr (JObj [(''id'', JStr ''u1''), (''name'', JStr ''Ann'')]) \<and>
   beforeSaveItem User \<lparr>removeInvalid = True\<rparr>
       (JEntity [(''id'', JStr []), (''name'', JStr ''Ann'')] True
          [(''id'', True), (''name'', True)] item_states None)
     = Inr (JObj [(''name'', JStr ''Ann'')])"
  using beforeSaveItem_fields [of "[(''id'', True), (''name'', False)]" User
      "[(''id'', JStr ''u1''), (''name'', JStr ''Ann'')]" "\<lparr>removeInvalid = True\<rparr>"
      True item_states None]
  by (simp add: ev ev_valid)


subsection \<open>Building and serializing scalar fields\<close>

lemma sanitize_nonempty: "acc \<noteq> [] \<Longrightarrow> sanitize acc s = acc @ filter is_digit s"
  by (induction s arbitrary: acc) auto

lemma sanitize_Cons:
  "sanitize [] (c # cs) =
     (if c = CHR ''+'' \<or> is_digit c then c # filter is_digit cs else sanitize [] cs)"
  by (simp add: sanitize_nonempty)

lemma phone_canonical_sanitize: "phone_canonical (sanitize [] s)"
proof (induction s)
  case Nil
  show ?case by simp
next
  case (Cons c cs)
  then show ?case by (simp add: sanitize_Cons list_all_iff del: sanitize.simps)
qed

lemma sanitize_canonical: "phone_canonical s \<Longrightarrow> sanitize [] s = s"
proof (cases s)
  case Nil
  then show ?thesis by simp
next
  case (Cons c cs)
  assume "phone_canonical s"
  with Cons have "c = CHR ''+'' \<or> is_digit c" and "filter is_digit cs = cs"
    by (simp_all add: list_all_iff)
  with Cons show ?thesis by (simp add: sanitize_Cons del: sanitize.simps)
qed

lemma sanitize_fixpoint_iff: "sanitize [] s = s \<longleftrightarrow> phone_canonical s"
  using phone_canonical_sanitize [of s] sanitize_canonical [of s] by auto

lemma dateonly_string_nonempty: "dateonly_string env d \<noteq> []"
  by (simp add: dateonly_string_def)

lemma dateonly_epoch: "dateonly_string epoch_env 0 = ''1970-01-01''"
  by code_simp

text \<open>
  Claim C3. A value is round-trippable when it is the serialized form of a field value: for
  \<^verbatim>\<open>PHONE\<close> the sanitized form of a string, for \<^verbatim>\<open>DATE\<close> and
  \<^verbatim>\<open>DATEONLY\<close> \<^verbatim>\<open>null\<close> or the string made of a date that \<^verbatim>\<open>parseDate\<close>
  reads back. For such a value \<open>v\<close>, \<^verbatim>\<open>beforeSave(beforeBuild(v))\<close> is \<open>v\<close>. For
  \<^verbatim>\<open>PHONE\<close> the round trip of a string gives the string back exactly when it is in
  the wire format.
\<close>

theorem build_serialize_roundtrip:
  "(\<exists>v. t_beforeSave PHONE (JStr s) options = Inr (JStr v) \<and> phone_canonical v \<and>
        t_beforeSave PHONE (t_beforeBuild PHONE (JStr v) bopts) options = Inr (JStr v)) \<and>
   (t_beforeSave PHONE (t_beforeBuild PHONE (JStr s) bopts) options = Inr (JStr s)
      \<longleftrightarrow> phone_canonical s) \<and>
   t_beforeSave (DATE env) (t_beforeBuild (DATE env) JNull bopts) options = Inr JNull \<and>
   t_beforeSave (DATEONLY env) (t_beforeBuild (DATEONLY env) JNull bopts) options = Inr JNull \<and>
   (parses_back env d \<longrightarrow>
      t_beforeSave (DATE env) (JDate d) options = Inr (JStr (toISOString env d)) \<and>
      t_beforeSave (DATE env) (t_beforeBuild (DATE env) (JStr (toISOString env d)) bopts) options
        = Inr (JStr (toISOString env d))) \<and>
   (parses_back_day env d \<longrightarrow>
      t_beforeSave (DATEONLY env) (JDate d) options = Inr (JStr (dateonly_string env d)) \<and>
      t_beforeSave (DATEONLY env)
          (t_beforeBuild (DATEONLY env) (JStr (dateonly_string env d)) bopts) options
        = Inr (JStr (dateonly_string env d)))"
proof (intro conjI impI)
  show "\<exists>v. t_beforeSave PHONE (JStr s) options = Inr (JStr v) \<and> phone_canonical v \<and>
        t_beforeSave PHONE (t_beforeBuild PHONE (JStr v) bopts) options = Inr (JStr v)"
    using phone_canonical_sanitize [of s] sanitize_canonical [of "sanitize [] s"]
    by (simp add: PHONE_def)
  show "t_beforeSave PHONE (t_beforeBuild PHONE (JStr s) bopts) options = Inr (JStr s)
      \<longleftrightarrow> phone_canonical s"
    by (simp add: PHONE_def sanitize_fixpoint_iff)
  show "t_beforeSave (DATE env) (t_beforeBuild (DATE env) JNull bopts) options = Inr JNull"
    by (simp add: DATE_def)
  show "t_beforeSave (DATEONLY env) (t_beforeBuild (DATEONLY env) JNull bopts) options = Inr JNull"
    by (simp add: DATEONLY_def)
next
  assume "parses_back env d"
  then show "t_beforeSave (DATE env) (JDate d) options = Inr (JStr (toISOString env d))"
    and "t_beforeSave (DATE env) (t_beforeBuild (DATE env) (JStr (toISOString env d)) bopts) options
        = Inr (JStr (toISOString env d))"
    by (simp_all add: DATE_def parses_back_def)
next
  assume p: "parses_back_day env d"
  show "t_beforeSave (DATEONLY env) (JDate d) options = Inr (JStr (dateonly_string env d))"
    by (simp add: DATEONLY_def)
  from p obtain d' where d': "parseDate env (dateonly_string env d) = JDate d'"
    and same: "getFullYear env d' = getFullYear env d" "getMonth env d' = getMonth env d"
      "getDate env d' = getDate env d"
    by (auto simp: parses_back_day_def split: jsval.splits)
  from same have "dateonly_string env d' = dateonly_string env d"
    by (simp add: dateonly_string_def)
  with d' show "t_beforeSave (DATEONLY env)
          (t_beforeBuild (DATEONLY env) (JStr (dateonly_string env d)) bopts) options
        = Inr (JStr (dateonly_string env d))"
    by (simp add: DATEONLY_def dateonly_string_nonempty)
qed

theorem build_serialize_roundtrip_witness:
  "parses_back epoch_env 0 \<and> parses_back_day epoch_env 0 \<and>
   t_beforeSave PHONE (JStr ''+33 6 12-34'') \<lparr>removeInvalid = True\<rparr> = Inr (JStr ''+3361234'') \<and>
   t_beforeSave PHONE (t_beforeBuild PHONE (JStr ''+3361234'') no_options) \<lparr>removeInvalid = True\<rparr>
     = Inr (JStr ''+3361234'') \<and>
   t_beforeSave (DATE epoch_env)
       (t_beforeBuild (DATE epoch_env) (JStr ''1970-01-01T00:00:00.000Z'') no_options)
       \<lparr>removeInvalid = True\<rparr>
     = Inr (JStr ''1970-01-01T00:00:00.000Z'') \<and>
   t_beforeSave (DATEONLY epoch_env)
       (t_beforeBuild (DATEONLY epoch_env) (JStr ''1970-01-01'') no_options)
       \<lparr>removeInvalid = True\<rparr>
     = Inr (JStr ''1970-01-01'')"
  using build_serialize_roundtrip [of "''+33 6 12-34''" "\<lparr>removeInvalid = True\<rparr>" no_options
      epoch_env 0]
  by (simp add: PHONE_def is_digit_def parses_back_def parses_back_day_def dateonly_epoch)
     (simp add: epoch_env_def)

end
